theory Spec2Isabelle
  imports Main
begin

section \<open>Configuration\<close>

text \<open>
  The constants of the CONFIG block of \<^verbatim>\<open>bot-get-tickets-qa-v2.py\<close>. The two secrets
  \<^verbatim>\<open>PAT\<close> and \<^verbatim>\<open>SLACK_WEBHOOK\<close> are read from the process environment; they are fields
  of the record \<open>env\<close> below.
\<close>

definition AZURE_ORG :: string where
  "AZURE_ORG = ''WFRD-RDE-DWC-Software''"

definition AZURE_PROJ :: string where
  "AZURE_PROJ = ''OmniStack''"

definition TEAM_NAME :: string where
  "TEAM_NAME = ''WASP''"

definition BOARD_NAME :: string where
  "BOARD_NAME = ''Stories''"

definition COLUMN_NAME :: string where
  "COLUMN_NAME = ''Ready for QA''"

definition POLL_INTERVAL :: nat where
  "POLL_INTERVAL = 120"

section \<open>Data: the JSON objects the program reads\<close>

text \<open>
  The program reads parsed JSON through \<^verbatim>\<open>d.get(k)\<close>, \<^verbatim>\<open>d.get(k, default)\<close> and
  \<^verbatim>\<open>d[k]\<close>. Each JSON object is a record with one optional field per key the program
  reads; \<open>None\<close> is an absent key. The field types are those of the service's schema
  (the structure the comment in \<^verbatim>\<open>get_team_area_predicate\<close> expects: a path string and a
  boolean per team field value; \<open>{id, name}\<close> per board and column; an integer id per
  work item). For a key read with \<^verbatim>\<open>.get(k)\<close> and tested for truth, \<open>None\<close> also stands
  for a JSON null, which Python treats the same way there.
\<close>

datatype ident = IdNum int | IdStr string

record entry =
  entry_id :: "ident option"
  entry_name :: "string option"

record team_field_value =
  tfv_value :: "string option"
  tfv_includeChildren :: "bool option"

record work_item_ref =
  ref_id :: "int option"

record link =
  href :: "string option"

record links =
  html :: "link option"

record wi_fields =
  System_Title :: "string option"

text \<open>
  A response body: the top-level JSON object, with the keys \<^verbatim>\<open>value\<close> (board and column
  listings), \<^verbatim>\<open>values\<close> (team field values), \<^verbatim>\<open>workItems\<close> (query result),
  \<^verbatim>\<open>fields\<close> and \<^verbatim>\<open>_links\<close> (work item details).
\<close>

record body =
  j_value :: "entry list option"
  j_values :: "team_field_value list option"
  j_workItems :: "work_item_ref list option"
  j_fields :: "wi_fields option"
  j_links :: "links option"

definition empty_dict :: body where
  "empty_dict = \<lparr>j_value = None, j_values = None, j_workItems = None,
                  j_fields = None, j_links = None\<rparr>"

text \<open>
  The message of the \<^verbatim>\<open>RuntimeError\<close> of a failed name lookup, as the values its f-string
  interpolates: the requested name, the team or the board id, and the list
  \<^verbatim>\<open>[b.get('name') for b in boards]\<close> of available names.
\<close>

datatype not_found =
    BoardNotFound string string "string option list"
  | ColumnNotFound string ident "string option list"

text \<open>
  Exceptions (all subclasses of Python's \<^verbatim>\<open>Exception\<close>). \<open>HTTPError\<close> is what
  \<^verbatim>\<open>raise_for_status\<close> raises; it holds the response, of which the status code and the
  body are kept. \<open>RequestException\<close> is any exception raised by \<^verbatim>\<open>requests.request\<close> or
  \<^verbatim>\<open>requests.post\<close> itself (connection error, timeout, ...).
\<close>

datatype exn =
    HTTPError nat string
  | RequestException string
  | JSONDecodeError
  | KeyError string
  | RuntimeError not_found



record response =
  status_code :: nat
  content :: string
  json :: "exn + body"

record http_request =
  req_method :: string
  req_url :: string
  req_auth :: "string \<times> string"
  req_params :: "(string \<times> string) list option"
  req_json :: "(string \<times> string) list option"

section \<open>Effects: the trace and the environment\<close>

datatype line =
    Monitoring string string string
  | BoardColumn string ident string
  | AreaPredicate string
  | Error exn
  | Warn exn

text \<open>
  The observable effects, in the order they happen. \<open>Notify wid seen\<close> marks the call
  of \<^verbatim>\<open>post_to_slack\<close> for the item \<open>wid\<close> in the poll loop, with the contents of
  \<^verbatim>\<open>seen_ids\<close> at that moment.
\<close>

datatype event =
    Request http_request
  | Post string "(string \<times> string) list" nat
  | Print line
  | Sleep nat
  | Notify int "int set"

record state =
  seen_ids :: "int set"
  trace :: "event list"

text \<open>
  The environment: the two secrets of \<^verbatim>\<open>os.environ\<close>, and the outcome of every call of
  \<^verbatim>\<open>requests.request\<close> and \<^verbatim>\<open>requests.post\<close>, which may depend on everything that
  happened before (the trace). \<open>Inl\<close> is an exception raised by the call.
\<close>

record env =
  PAT :: string
  SLACK_WEBHOOK :: string
  requests_request :: "event list \<Rightarrow> http_request \<Rightarrow> exn + response"
  requests_post :: "event list \<Rightarrow> string \<Rightarrow> (string \<times> string) list \<Rightarrow> nat \<Rightarrow> exn + nat"

definition emit :: "event \<Rightarrow> state \<Rightarrow> state" where
  "emit e s = s\<lparr>trace := trace s @ [e]\<rparr>"

section \<open>HTTP helpers\<close>

text \<open>
  \<^verbatim>\<open>Response.raise_for_status\<close> of the requests library: an \<^verbatim>\<open>HTTPError\<close> for a status
  code from 400 to 599, nothing otherwise.
\<close>

definition raise_for_status :: "response \<Rightarrow> exn + unit" where
  "raise_for_status resp =
     (if 400 \<le> status_code resp \<and> status_code resp < 600
      then Inl (HTTPError (status_code resp) (content resp))
      else Inr ())"

definition lstrip :: "char \<Rightarrow> string \<Rightarrow> string" where
  "lstrip c p = dropWhile (\<lambda>x. x = c) p"

text \<open>
  The arguments of the call of \<^verbatim>\<open>requests.request\<close> in \<^verbatim>\<open>_request\<close>: the method, the URL
  under the organisation's base URL, the basic authentication with the token, the query
  parameters and the JSON payload.
\<close>

definition request_args :: "env \<Rightarrow> string \<Rightarrow> string \<Rightarrow> (string \<times> string) list option
    \<Rightarrow> (string \<times> string) list option \<Rightarrow> http_request" where
  "request_args E method path params js =
     (let base = ''https://dev.azure.com/'' @ AZURE_ORG;
          url = base @ ''/'' @ lstrip (CHR ''/'') path
      in \<lparr>req_method = method, req_url = url, req_auth = ('''', PAT E),
           req_params = params, req_json = js\<rparr>)"

text \<open>
  \<^verbatim>\<open>_request\<close>. \<^verbatim>\<open>resp.content\<close> is true when the body has at least one byte;
  \<open>json resp\<close> is the outcome of \<^verbatim>\<open>resp.json()\<close>.
\<close>

definition request' :: "env \<Rightarrow> string \<Rightarrow> string \<Rightarrow> (string \<times> string) list option
    \<Rightarrow> (string \<times> string) list option \<Rightarrow> state \<Rightarrow> (exn + body) \<times> state" where
  "request' E method path params js s =
     (let rq = request_args E method path params js;
          s' = emit (Request rq) s
      in case requests_request E (trace s) rq of
           Inl e \<Rightarrow> (Inl e, s')
         | Inr resp \<Rightarrow>
             (case raise_for_status resp of
                Inl e \<Rightarrow> (Inl e, s')
              | Inr u \<Rightarrow>
                  if content resp \<noteq> [] then (json resp, s')
                  else (Inr empty_dict, s')))"

definition azure_get :: "env \<Rightarrow> string \<Rightarrow> (string \<times> string) list option
    \<Rightarrow> state \<Rightarrow> (exn + body) \<times> state" where
  "azure_get E path params s = request' E ''GET'' path params None s"

definition azure_post :: "env \<Rightarrow> string \<Rightarrow> (string \<times> string) list option
    \<Rightarrow> (string \<times> string) list option \<Rightarrow> state \<Rightarrow> (exn + body) \<times> state" where
  "azure_post E path js params s = request' E ''POST'' path params js s"

section \<open>Python helpers\<close>

text \<open>\<^verbatim>\<open>d.get(k, default)\<close> and \<^verbatim>\<open>d[k]\<close> on an optional field.\<close>

definition get_or :: "'a option \<Rightarrow> 'a \<Rightarrow> 'a" where
  "get_or v d = (case v of None \<Rightarrow> d | Some x \<Rightarrow> x)"

definition subscript :: "'a option \<Rightarrow> string \<Rightarrow> exn + 'a" where
  "subscript v k = (case v of None \<Rightarrow> Inl (KeyError k) | Some x \<Rightarrow> Inr x)"

text \<open>\<^verbatim>\<open>sep.join(parts)\<close>.\<close>

fun join :: "string \<Rightarrow> string list \<Rightarrow> string" where
  "join sep [] = []"
| "join sep [p] = p"
| "join sep (p # q # ps) = p @ sep @ join sep (q # ps)"

text \<open>\<^verbatim>\<open>str\<close> of an integer, of a board or column id, and of an optional string.\<close>

definition digit_char :: "nat \<Rightarrow> char" where
  "digit_char d = char_of (48 + d)"

function str_nat :: "nat \<Rightarrow> string" where
  "str_nat n = (if n < 10 then [digit_char n] else str_nat (n div 10) @ [digit_char (n mod 10)])"
  by pat_completeness auto
termination
  by (relation "measure (\<lambda>n. n)") auto

declare str_nat.simps [simp del]

definition str_int :: "int \<Rightarrow> string" where
  "str_int i = (if i < 0 then ''-'' @ str_nat (nat (- i)) else str_nat (nat i))"

fun str_ident :: "ident \<Rightarrow> string" where
  "str_ident (IdNum i) = str_int i"
| "str_ident (IdStr s) = s"

definition str_opt :: "string option \<Rightarrow> string" where
  "str_opt v = (case v of None \<Rightarrow> ''None'' | Some t \<Rightarrow> t)"

definition api_version :: "string \<Rightarrow> (string \<times> string) list option" where
  "api_version v = Some [(''api-version'', v)]"

section \<open>The Notifier\<close>

text \<open>
  \<^verbatim>\<open>post_to_slack\<close>: the webhook post inside \<^verbatim>\<open>try\<close>, the warning in the handler of
  \<^verbatim>\<open>except Exception\<close>. The response of the webhook is not looked at.
\<close>

definition post_to_slack :: "env \<Rightarrow> string \<Rightarrow> state \<Rightarrow> (exn + unit) \<times> state" where
  "post_to_slack E text s =
     (let payload = [(''text'', text), (''icon_emoji'', '':robot_face:'')];
          s' = emit (Post (SLACK_WEBHOOK E) payload 10) s
      in case requests_post E (trace s) (SLACK_WEBHOOK E) payload 10 of
           Inl e \<Rightarrow> (Inr (), emit (Print (Warn e)) s')
         | Inr r \<Rightarrow> (Inr (), s'))"

section \<open>Board and column lookup\<close>

definition get_team_boards :: "env \<Rightarrow> string \<Rightarrow> string \<Rightarrow> state
    \<Rightarrow> (exn + entry list) \<times> state" where
  "get_team_boards E project team s =
     (case azure_get E (project @ ''/'' @ team @ ''/_apis/work/boards'')
             (api_version ''6.0-preview.1'') s of
        (Inl e, s') \<Rightarrow> (Inl e, s')
      | (Inr data, s') \<Rightarrow> (Inr (get_or (j_value data) []), s'))"

definition get_board_id_by_name :: "env \<Rightarrow> string \<Rightarrow> string \<Rightarrow> string \<Rightarrow> state
    \<Rightarrow> (exn + ident \<times> string) \<times> state" where
  "get_board_id_by_name E project team board_name s =
     (case get_team_boards E project team s of
        (Inl e, s') \<Rightarrow> (Inl e, s')
      | (Inr boards, s') \<Rightarrow>
          (case find (\<lambda>b. entry_name b = Some board_name) boards of
             None \<Rightarrow>
               (Inl (RuntimeError (BoardNotFound board_name team (map entry_name boards))), s')
           | Some board \<Rightarrow>
               (case subscript (entry_id board) ''id'' of
                  Inl e \<Rightarrow> (Inl e, s')
                | Inr i \<Rightarrow>
                    (case subscript (entry_name board) ''name'' of
                       Inl e \<Rightarrow> (Inl e, s')
                     | Inr n \<Rightarrow> (Inr (i, n), s')))))"

definition get_board_columns :: "env \<Rightarrow> string \<Rightarrow> string \<Rightarrow> ident \<Rightarrow> state
    \<Rightarrow> (exn + entry list) \<times> state" where
  "get_board_columns E project team board_id s =
     (case azure_get E
             (project @ ''/'' @ team @ ''/_apis/work/boards/'' @ str_ident board_id @ ''/columns'')
             (api_version ''6.0-preview.1'') s of
        (Inl e, s') \<Rightarrow> (Inl e, s')
      | (Inr data, s') \<Rightarrow> (Inr (get_or (j_value data) []), s'))"

definition get_column_id_by_name :: "env \<Rightarrow> string \<Rightarrow> string \<Rightarrow> ident \<Rightarrow> string \<Rightarrow> state
    \<Rightarrow> (exn + ident \<times> string) \<times> state" where
  "get_column_id_by_name E project team board_id column_name s =
     (case get_board_columns E project team board_id s of
        (Inl e, s') \<Rightarrow> (Inl e, s')
      | (Inr cols, s') \<Rightarrow>
          (case find (\<lambda>c. entry_name c = Some column_name) cols of
             None \<Rightarrow>
               (Inl (RuntimeError (ColumnNotFound column_name board_id (map entry_name cols))), s')
           | Some col \<Rightarrow>
               (case subscript (entry_id col) ''id'' of
                  Inl e \<Rightarrow> (Inl e, s')
                | Inr i \<Rightarrow>
                    (case subscript (entry_name col) ''name'' of
                       Inl e \<Rightarrow> (Inl e, s')
                     | Inr n \<Rightarrow> (Inr (i, n), s')))))"

section \<open>Team area scope\<close>

text \<open>
  The \<^verbatim>\<open>for v in values\<close> loop of \<^verbatim>\<open>get_team_area_predicate\<close>, with the list
  \<^verbatim>\<open>parts\<close> as accumulator. \<^verbatim>\<open>not path\<close> holds for an absent (or null) value and for the
  empty string.
\<close>

definition squote :: string where
  "squote = [CHR 0x27]"

fun area_parts :: "string list \<Rightarrow> team_field_value list \<Rightarrow> string list" where
  "area_parts parts [] = parts"
| "area_parts parts (v # vs) =
     (let path = tfv_value v;
          include_children = get_or (tfv_includeChildren v) False
      in case path of
           None \<Rightarrow> area_parts parts vs
         | Some p \<Rightarrow>
             if p = [] then area_parts parts vs
             else if include_children
             then area_parts (parts @ [''[System.AreaPath] UNDER '' @ squote @ p @ squote]) vs
             else area_parts (parts @ [''[System.AreaPath] = '' @ squote @ p @ squote]) vs)"

definition get_team_area_predicate :: "env \<Rightarrow> string \<Rightarrow> string \<Rightarrow> state
    \<Rightarrow> (exn + string) \<times> state" where
  "get_team_area_predicate E project team s =
     (case azure_get E (project @ ''/'' @ team @ ''/_apis/work/teamsettings/teamfieldvalues'')
             (api_version ''6.0'') s of
        (Inl e, s') \<Rightarrow> (Inl e, s')
      | (Inr data, s') \<Rightarrow>
          (let vals = get_or (j_values data) [] in
           if vals = [] then (Inr (''[System.TeamProject] = '' @ squote @ AZURE_PROJ @ squote), s')
           else
             (let parts = area_parts [] vals in
              if parts = []
              then (Inr (''[System.TeamProject] = '' @ squote @ AZURE_PROJ @ squote), s')
              else (Inr (''('' @ join '' OR '' parts @ '')''), s'))))"

section \<open>The query and the poll loop\<close>

text \<open>The text of the query, and \<^verbatim>\<open>query_items_in_board_column\<close>.\<close>

definition wiql_query :: "string \<Rightarrow> string \<Rightarrow> string \<Rightarrow> string" where
  "wiql_query project column_name team_area_predicate =
     ''SELECT [System.Id], [System.Title] '' @
     ''FROM workitems '' @
     ''WHERE [System.TeamProject] = '' @ squote @ project @ squote @ '' '' @
     ''AND [System.BoardColumn] = '' @ squote @ column_name @ squote @ '' '' @
     ''AND '' @ team_area_predicate"

definition query_items_in_board_column :: "env \<Rightarrow> string \<Rightarrow> string \<Rightarrow> string \<Rightarrow> state
    \<Rightarrow> (exn + work_item_ref list) \<times> state" where
  "query_items_in_board_column E project column_name team_area_predicate s =
     (let wiql = [(''query'', wiql_query project column_name team_area_predicate)]
      in case azure_post E (project @ ''/_apis/wit/wiql'') (Some wiql) (api_version ''6.0'') s of
           (Inl e, s') \<Rightarrow> (Inl e, s')
         | (Inr res, s') \<Rightarrow> (Inr (get_or (j_workItems res) []), s'))"

definition get_work_item :: "env \<Rightarrow> string \<Rightarrow> int \<Rightarrow> state \<Rightarrow> (exn + body) \<times> state" where
  "get_work_item E project wid s =
     azure_get E (project @ ''/_apis/wit/workitems/'' @ str_int wid) (api_version ''6.0'') s"

text \<open>
  The text of a notification. The middle dot and the dash of the source are the
  bytes of their UTF-8 encoding.
\<close>

definition ticket_text :: "string \<Rightarrow> int \<Rightarrow> string option \<Rightarrow> string" where
  "ticket_text url wid title =
     '':excitedstar: *['' @ TEAM_NAME @ '' '' @ [CHR 0xC2, CHR 0xB7] @ '' '' @ BOARD_NAME @
     ''] Ticket ready for testing:* '' @
     ''<'' @ url @ ''|#'' @ str_int wid @ '' '' @ [CHR 0xE2, CHR 0x80, CHR 0x93] @ '' '' @
     str_opt title @ ''>''"

text \<open>
  The body of the \<^verbatim>\<open>for itm in items\<close> loop, for one item. An exception leaves it
  with the state as it is at that point: what was added to \<^verbatim>\<open>seen_ids\<close> stays there.
\<close>

definition process_item :: "env \<Rightarrow> work_item_ref \<Rightarrow> state \<Rightarrow> (exn + unit) \<times> state" where
  "process_item E itm s =
     (case subscript (ref_id itm) ''id'' of
        Inl e \<Rightarrow> (Inl e, s)
      | Inr wid \<Rightarrow>
          if wid \<notin> seen_ids s then
            (let s1 = s\<lparr>seen_ids := insert wid (seen_ids s)\<rparr> in
             case get_work_item E AZURE_PROJ wid s1 of
               (Inl e, s2) \<Rightarrow> (Inl e, s2)
             | (Inr details, s2) \<Rightarrow>
                 (case subscript (j_fields details) ''fields'' of
                    Inl e \<Rightarrow> (Inl e, s2)
                  | Inr fs \<Rightarrow>
                      (let title = System_Title fs in
                       case subscript (j_links details) ''_links'' of
                         Inl e \<Rightarrow> (Inl e, s2)
                       | Inr ls \<Rightarrow>
                           (case subscript (html ls) ''html'' of
                              Inl e \<Rightarrow> (Inl e, s2)
                            | Inr h \<Rightarrow>
                                (case subscript (href h) ''href'' of
                                   Inl e \<Rightarrow> (Inl e, s2)
                                 | Inr url \<Rightarrow>
                                     post_to_slack E (ticket_text url wid title)
                                       (emit (Notify wid (seen_ids s2)) s2))))))
          else (Inr (), s))"

text \<open>The \<^verbatim>\<open>for itm in items\<close> loop: an exception in the body ends it.\<close>

fun process_items :: "env \<Rightarrow> work_item_ref list \<Rightarrow> state \<Rightarrow> (exn + unit) \<times> state" where
  "process_items E [] s = (Inr (), s)"
| "process_items E (itm # items) s =
     (case process_item E itm s of
        (Inl e, s') \<Rightarrow> (Inl e, s')
      | (Inr u, s') \<Rightarrow> process_items E items s')"

text \<open>The body of the \<^verbatim>\<open>try\<close> statement of one poll cycle.\<close>

definition poll_body :: "env \<Rightarrow> string \<Rightarrow> state \<Rightarrow> (exn + unit) \<times> state" where
  "poll_body E area_predicate s =
     (case query_items_in_board_column E AZURE_PROJ COLUMN_NAME area_predicate s of
        (Inl e, s') \<Rightarrow> (Inl e, s')
      | (Inr items, s') \<Rightarrow> process_items E items s')"

text \<open>
  One pass through the body of \<^verbatim>\<open>while True\<close>: the \<^verbatim>\<open>try\<close> statement with its handler
  for \<^verbatim>\<open>Exception\<close>, then \<^verbatim>\<open>time.sleep(POLL_INTERVAL)\<close>. \<open>Inl\<close> would be an exception
  that leaves the loop. \<^verbatim>\<open>print\<close> and \<^verbatim>\<open>time.sleep\<close> are taken not to raise, and an
  interrupt of the process (not an \<^verbatim>\<open>Exception\<close>) is outside the model.
\<close>

definition poll_cycle :: "env \<Rightarrow> string \<Rightarrow> state \<Rightarrow> (exn + unit) \<times> state" where
  "poll_cycle E area_predicate s =
     (case poll_body E area_predicate s of
        (Inl e, s') \<Rightarrow> (Inr (), emit (Sleep POLL_INTERVAL) (emit (Print (Error e)) s'))
      | (Inr u, s') \<Rightarrow> (Inr (), emit (Sleep POLL_INTERVAL) s'))"

text \<open>
  The loop \<^verbatim>\<open>while True\<close>, for a given number of passes: \<open>Inr ()\<close> with the state after
  that many passes when the loop is still running then, \<open>Inl e\<close> when an exception has
  left it before.
\<close>

fun poll_loop :: "env \<Rightarrow> string \<Rightarrow> nat \<Rightarrow> state \<Rightarrow> (exn + unit) \<times> state" where
  "poll_loop E area_predicate 0 s = (Inr (), s)"
| "poll_loop E area_predicate (Suc n) s =
     (case poll_cycle E area_predicate s of
        (Inl e, s') \<Rightarrow> (Inl e, s')
      | (Inr u, s') \<Rightarrow> poll_loop E area_predicate n s')"

definition initial :: state where
  "initial = \<lparr>seen_ids = {}, trace = []\<rparr>"

text \<open>The main program: the lookups at startup, then the loop.\<close>

definition main :: "env \<Rightarrow> nat \<Rightarrow> (exn + unit) \<times> state" where
  "main E n =
     (case get_board_id_by_name E AZURE_PROJ TEAM_NAME BOARD_NAME initial of
        (Inl e, s1) \<Rightarrow> (Inl e, s1)
      | (Inr (board_id, resolved_board_name), s1) \<Rightarrow>
          (case get_column_id_by_name E AZURE_PROJ TEAM_NAME board_id COLUMN_NAME s1 of
             (Inl e, s2) \<Rightarrow> (Inl e, s2)
           | (Inr (column_id, resolved_col_name), s2) \<Rightarrow>
               (let s3 = emit (Print (Monitoring AZURE_ORG AZURE_PROJ TEAM_NAME)) s2;
                    s4 = emit (Print (BoardColumn resolved_board_name board_id resolved_col_name)) s3
                in case get_team_area_predicate E AZURE_PROJ TEAM_NAME s4 of
                     (Inl e, s5) \<Rightarrow> (Inl e, s5)
                   | (Inr area_predicate, s5) \<Rightarrow>
                       poll_loop E area_predicate n (emit (Print (AreaPredicate area_predicate)) s5))))"

section \<open>Notions of the specification\<close>

text \<open>
  An entry of the team field values has a usable path when its \<^verbatim>\<open>value\<close> is present and
  not empty. The clause of such an entry is the inclusive one when \<^verbatim>\<open>includeChildren\<close>
  is true and the exact one when it is false or absent.
\<close>

definition usable :: "team_field_value \<Rightarrow> bool" where
  "usable v = (case tfv_value v of None \<Rightarrow> False | Some p \<Rightarrow> p \<noteq> [])"

definition under_clause :: "string \<Rightarrow> string" where
  "under_clause p = ''[System.AreaPath] UNDER '' @ squote @ p @ squote"

definition exact_clause :: "string \<Rightarrow> string" where
  "exact_clause p = ''[System.AreaPath] = '' @ squote @ p @ squote"

definition clause :: "team_field_value \<Rightarrow> string" where
  "clause v =
     (case tfv_includeChildren v of
        Some True \<Rightarrow> under_clause (get_or (tfv_value v) [])
      | Some False \<Rightarrow> exact_clause (get_or (tfv_value v) [])
      | None \<Rightarrow> exact_clause (get_or (tfv_value v) []))"

definition project_clause :: string where
  "project_clause = ''[System.TeamProject] = '' @ squote @ AZURE_PROJ @ squote"

text \<open>
  Joining, as the specification words it: the parts one after the other, with the
  separator between every two neighbours.
\<close>

definition separated :: "string \<Rightarrow> string list \<Rightarrow> string" where
  "separated sep ps = (case ps of [] \<Rightarrow> [] | p # qs \<Rightarrow> p @ concat (map (\<lambda>q. sep @ q) qs))"

text \<open>
  A predicate is well quoted when its single quotes pair up: every string literal that
  is opened is closed. The number of single quotes of a string, and the paths of the
  entries that have a usable path.
\<close>

definition quote_count :: "string \<Rightarrow> nat" where
  "quote_count p = length (filter (\<lambda>c. c = CHR 0x27) p)"

definition well_quoted :: "string \<Rightarrow> bool" where
  "well_quoted p = even (quote_count p)"

definition usable_paths :: "team_field_value list \<Rightarrow> string list" where
  "usable_paths vals = map (\<lambda>v. get_or (tfv_value v) []) (filter usable vals)"


section \<open>Notions about traces\<close>

text \<open>
  The events that a run from the state \<open>s\<close> to the state \<open>s'\<close> has added to the trace;
  the calls of the Notifier among some events, with the contents of \<^verbatim>\<open>seen_ids\<close> at
  each call, and the items they are for; the queries (the POST requests) and the
  detail fetches (the GET requests); and the time slept.
\<close>

definition new_events :: "state \<Rightarrow> state \<Rightarrow> event list" where
  "new_events s s' = drop (length (trace s)) (trace s')"

fun notifs :: "event list \<Rightarrow> (int \<times> int set) list" where
  "notifs [] = []"
| "notifs (Notify w sn # es) = (w, sn) # notifs es"
| "notifs (e # es) = notifs es"

definition notified :: "event list \<Rightarrow> int list" where
  "notified es = map fst (notifs es)"

fun is_query :: "event \<Rightarrow> bool" where
  "is_query (Request r) = (req_method r = ''POST'')"
| "is_query e = False"

fun is_fetch :: "event \<Rightarrow> bool" where
  "is_fetch (Request r) = (req_method r = ''GET'')"
| "is_fetch e = False"

fun is_sleep :: "event \<Rightarrow> bool" where
  "is_sleep (Sleep n) = True"
| "is_sleep e = False"

fun slept :: "event list \<Rightarrow> nat" where
  "slept [] = 0"
| "slept (Sleep n # es) = n + slept es"
| "slept (e # es) = slept es"

text \<open>The identifiers of the items of a query result.\<close>

definition ids :: "work_item_ref list \<Rightarrow> int set" where
  "ids items = set (List.map_filter ref_id items)"

text \<open>
  The request of the query of a poll cycle and the items it returns (none when it
  raises), the request of \<^verbatim>\<open>get_work_item\<close> for an item, the payload of the webhook
  post, and the work item details in which every key that the loop subscripts is present.
\<close>

definition query_args :: "env \<Rightarrow> string \<Rightarrow> http_request" where
  "query_args E area_predicate =
     request_args E ''POST'' (AZURE_PROJ @ ''/_apis/wit/wiql'') (api_version ''6.0'')
       (Some [(''query'', wiql_query AZURE_PROJ COLUMN_NAME area_predicate)])"

definition queried :: "env \<Rightarrow> string \<Rightarrow> state \<Rightarrow> work_item_ref list" where
  "queried E area_predicate s =
     (case fst (query_items_in_board_column E AZURE_PROJ COLUMN_NAME area_predicate s) of
        Inl e \<Rightarrow> []
      | Inr items \<Rightarrow> items)"

definition fetch_args :: "env \<Rightarrow> int \<Rightarrow> http_request" where
  "fetch_args E wid =
     request_args E ''GET'' (AZURE_PROJ @ ''/_apis/wit/workitems/'' @ str_int wid)
       (api_version ''6.0'') None"

definition slack_payload :: "string \<Rightarrow> (string \<times> string) list" where
  "slack_payload text = [(''text'', text), (''icon_emoji'', '':robot_face:'')]"

definition complete :: "body \<Rightarrow> bool" where
  "complete d =
     (case j_fields d of None \<Rightarrow> False
      | Some fs \<Rightarrow>
          (case j_links d of None \<Rightarrow> False
           | Some ls \<Rightarrow>
               (case html ls of None \<Rightarrow> False
                | Some h \<Rightarrow> (case href h of None \<Rightarrow> False | Some u \<Rightarrow> True))))"

section \<open>Notions for the proofs\<close>

text \<open>
  What processing some items of a query result does between two states: it adds the
  events \<open>evs\<close>, none of them a query or a sleep; \<^verbatim>\<open>seen_ids\<close> grows, by identifiers
  of these items only; every call of the Notifier is for one of these items, which was
  not in \<^verbatim>\<open>seen_ids\<close> before and is in it at the call; and no item is notified twice.
\<close>

definition item_run :: "work_item_ref list \<Rightarrow> state \<Rightarrow> event list \<Rightarrow> state \<Rightarrow> bool" where
  "item_run items s evs s' =
     (trace s' = trace s @ evs \<and>
      list_all (\<lambda>e. \<not> is_query e \<and> \<not> is_sleep e) evs \<and>
      seen_ids s \<subseteq> seen_ids s' \<and> seen_ids s' \<subseteq> seen_ids s \<union> ids items \<and>
      (\<forall>(w, sn) \<in> set (notifs evs).
          w \<notin> seen_ids s \<and> w \<in> sn \<and> sn \<subseteq> seen_ids s' \<and> w \<in> ids items) \<and>
      distinct (notified evs))"

text \<open>
  The same for a run of any part of the program: the trace grows by \<open>evs\<close>,
  \<^verbatim>\<open>seen_ids\<close> grows, every call of the Notifier is for an item that was not in
  \<^verbatim>\<open>seen_ids\<close> before the run and is in it at the call, and no item is notified twice.
\<close>

definition run :: "state \<Rightarrow> event list \<Rightarrow> state \<Rightarrow> bool" where
  "run s evs s' =
     (trace s' = trace s @ evs \<and> seen_ids s \<subseteq> seen_ids s' \<and>
      (\<forall>(w, sn) \<in> set (notifs evs). w \<notin> seen_ids s \<and> w \<in> sn \<and> sn \<subseteq> seen_ids s') \<and>
      distinct (notified evs))"

text \<open>
  Scanning some events with the time slept since the last query: every query comes
  after at least \<open>POLL_INTERVAL\<close> of sleep since the one before; and the time slept
  since the last query at the end of the events.
\<close>

fun well_spaced :: "nat \<Rightarrow> event list \<Rightarrow> bool" where
  "well_spaced t [] = True"
| "well_spaced t (Sleep n # es) = well_spaced (t + n) es"
| "well_spaced t (Request r # es) =
     (if req_method r = ''POST'' then POLL_INTERVAL \<le> t \<and> well_spaced 0 es
      else well_spaced t es)"
| "well_spaced t (e # es) = well_spaced t es"

fun gap :: "nat \<Rightarrow> event list \<Rightarrow> nat" where
  "gap t [] = t"
| "gap t (Sleep n # es) = gap (t + n) es"
| "gap t (Request r # es) = (if req_method r = ''POST'' then gap 0 es else gap t es)"
| "gap t (e # es) = gap t es"

section \<open>Sample inputs\<close>

text \<open>
  A response with status 200 and the given parsed body, and an environment whose
  tracking service is the given function and whose webhook accepts every post.
\<close>

definition ok_response :: "body \<Rightarrow> response" where
  "ok_response b = \<lparr>status_code = 200, content = ''{...}'', json = Inr b\<rparr>"

definition tracker :: "(event list \<Rightarrow> http_request \<Rightarrow> exn + response) \<Rightarrow> env" where
  "tracker f = \<lparr>PAT = ''token'', SLACK_WEBHOOK = ''https://hooks.example/services/T'',
     requests_request = f, requests_post = (\<lambda>h u p t. Inr 200)\<rparr>"

definition proj_team :: team_field_value where
  "proj_team = \<lparr>tfv_value = Some (''Proj'' @ [CHR 0x5C] @ ''Team''), tfv_includeChildren = Some True\<rparr>"

definition stories :: entry where
  "stories = \<lparr>entry_id = Some (IdNum 3), entry_name = Some ''Stories''\<rparr>"

text \<open>
  A body that answers both the query (the items 101 and 102) and a detail fetch; the
  state in which the item 101 has been seen; a tracking service that answers the
  query with this body and every detail fetch with the status 500; and a webhook on
  which every post times out.
\<close>

definition two_items :: body where
  "two_items = \<lparr>j_value = None, j_values = None,
     j_workItems = Some [\<lparr>ref_id = Some 101\<rparr>, \<lparr>ref_id = Some 102\<rparr>],
     j_fields = Some \<lparr>System_Title = Some ''Fix login''\<rparr>,
     j_links = Some \<lparr>html = Some \<lparr>href = Some ''https://dev.azure.com/o/p/_workitems/edit/102''\<rparr>\<rparr>\<rparr>"

definition seen_101 :: state where
  "seen_101 = \<lparr>seen_ids = {101}, trace = []\<rparr>"

definition failing_fetch :: "event list \<Rightarrow> http_request \<Rightarrow> exn + response" where
  "failing_fetch h r =
     (if req_method r = ''POST'' then Inr (ok_response two_items)
      else Inr \<lparr>status_code = 500, content = ''error'', json = Inl JSONDecodeError\<rparr>)"

definition timing_out :: "env \<Rightarrow> env" where
  "timing_out E = E\<lparr>requests_post := (\<lambda>h u p t. Inl (RequestException ''timeout''))\<rparr>"

text \<open>
  Team field values: an entry without a path, the project root without its children,
  a path with its children, and a path that holds a single quote.
\<close>

definition no_path :: team_field_value where
  "no_path = \<lparr>tfv_value = None, tfv_includeChildren = Some True\<rparr>"

definition omni_root :: team_field_value where
  "omni_root = \<lparr>tfv_value = Some ''OmniStack'', tfv_includeChildren = Some False\<rparr>"

definition wasp_tree :: team_field_value where
  "wasp_tree = \<lparr>tfv_value = Some ''WASP'', tfv_includeChildren = Some True\<rparr>"

definition obrien :: team_field_value where
  "obrien = \<lparr>tfv_value = Some ''O'Brien'', tfv_includeChildren = Some False\<rparr>"

text \<open>
  A tracking service that gives the same response to every request, and one that gives
  the status 200 with the same parsed body; the response to a conditional request
  that found nothing new, and a sign-in page sent with the status 203.
\<close>

definition replying :: "response \<Rightarrow> env" where
  "replying resp = tracker (\<lambda>h r. Inr resp)"

definition serving :: "body \<Rightarrow> env" where
  "serving b = replying (ok_response b)"

definition not_modified :: response where
  "not_modified = \<lparr>status_code = 304, content = [], json = Inl JSONDecodeError\<rparr>"



section \<open>The scope predicate builder\<close>

lemma area_parts_acc: "area_parts parts vs = parts @ area_parts [] vs"
proof (induction vs arbitrary: parts)
  case Nil
  show ?case by simp
next
  case (Cons v vs)
  have step: "\<And>c. area_parts (parts @ [c]) vs = parts @ area_parts [c] vs"
    using Cons.IH [of "parts @ [c]" for c] Cons.IH [of "[c]" for c] by simp
  show ?case
    using Cons.IH [of parts] step
    by (simp add: Let_def split: option.split)
qed

lemma area_parts_clauses: "area_parts [] vs = map clause (filter usable vs)"
proof (induction vs)
  case Nil
  show ?case by simp
next
  case (Cons v vs)
  have "area_parts [c] vs = c # area_parts [] vs" for c
    using area_parts_acc [of "[c]" vs] by simp
  with Cons.IH show ?case
    by (auto simp: Let_def usable_def clause_def under_clause_def exact_clause_def get_or_def
        split: option.split bool.split)
qed

lemma predicate_of_data:
  assumes "azure_get E (project @ ''/'' @ team @ ''/_apis/work/teamsettings/teamfieldvalues'')
             (api_version ''6.0'') s = (Inr data, s')"
  shows "get_team_area_predicate E project team s =
     (Inr (if filter usable (get_or (j_values data) []) = [] then project_clause
           else ''('' @ join '' OR '' (map clause (filter usable (get_or (j_values data) []))) @ '')''), s')"
  using assms
  by (auto simp: get_team_area_predicate_def Let_def area_parts_clauses project_clause_def)

lemma azure_get_ok_response:
  "azure_get (tracker (\<lambda>h r. Inr (ok_response b))) path params s =
     (Inr b, emit (Request (request_args (tracker (\<lambda>h r. Inr (ok_response b))) ''GET'' path params None)) s)"
  by (simp add: azure_get_def request'_def tracker_def ok_response_def raise_for_status_def Let_def)

lemma join_separated: "join sep ps = separated sep ps"
  by (induction sep ps rule: join.induct) (simp_all add: separated_def)

text \<open>
  C2. When the team settings are fetched and their values list has at least one entry
  with a usable path, the predicate is the clauses of the entries with a usable path
  (\<open>[System.AreaPath] UNDER '<path>'\<close> when \<^verbatim>\<open>includeChildren\<close> is true,
  \<open>[System.AreaPath] = '<path>'\<close> when it is false), in the order of the entries, with
  \<open>' OR '\<close> between every two of them, wrapped in one pair of parentheses. For the
  single value \<open>{value: "Proj\Team", includeChildren: true}\<close> it is exactly
  \<open>([System.AreaPath] UNDER 'Proj\Team')\<close>; for four values of which the second has no
  path it is the three clauses of the others with \<open>' OR '\<close> twice.
\<close>

theorem scope_predicate_clauses:
  assumes "azure_get E (project @ ''/'' @ team @ ''/_apis/work/teamsettings/teamfieldvalues'')
             (api_version ''6.0'') s = (Inr data, s')"
  shows "(j_values data = Some vals \<and> (\<exists>v\<in>set vals. usable v) \<longrightarrow>
            get_team_area_predicate E project team s =
              (Inr (''('' @ separated '' OR '' (map clause (filter usable vals)) @ '')''), s'))
         \<and> (j_values data = Some [proj_team] \<longrightarrow>
            get_team_area_predicate E project team s =
              (Inr (''([System.AreaPath] UNDER 'Proj'' @ [CHR 0x5C] @ ''Team')''), s'))
         \<and> (j_values data = Some [proj_team, no_path, omni_root, wasp_tree] \<longrightarrow>
            get_team_area_predicate E project team s =
              (Inr (''([System.AreaPath] UNDER 'Proj'' @ [CHR 0x5C] @
                    ''Team' OR [System.AreaPath] = 'OmniStack' OR [System.AreaPath] UNDER 'WASP')''),
               s'))"
proof -
  have gen: "j_values data = Some vs \<Longrightarrow> filter usable vs \<noteq> [] \<Longrightarrow>
      get_team_area_predicate E project team s =
        (Inr (''('' @ join '' OR '' (map clause (filter usable vs)) @ '')''), s')" for vs
    using predicate_of_data [OF assms] by (simp add: get_or_def)
  have "j_values data = Some vals \<Longrightarrow> \<exists>v\<in>set vals. usable v \<Longrightarrow> filter usable vals \<noteq> []"
    by (auto simp: filter_empty_conv)
  with gen [of vals] have first: "j_values data = Some vals \<and> (\<exists>v\<in>set vals. usable v) \<longrightarrow>
            get_team_area_predicate E project team s =
              (Inr (''('' @ separated '' OR '' (map clause (filter usable vals)) @ '')''), s')"
    unfolding join_separated by blast
  have second: "j_values data = Some [proj_team] \<longrightarrow>
            get_team_area_predicate E project team s =
              (Inr (''([System.AreaPath] UNDER 'Proj'' @ [CHR 0x5C] @ ''Team')''), s')"
    using gen [of "[proj_team]"]
    by (simp add: usable_def proj_team_def clause_def under_clause_def get_or_def squote_def)
  have third: "j_values data = Some [proj_team, no_path, omni_root, wasp_tree] \<longrightarrow>
            get_team_area_predicate E project team s =
              (Inr (''([System.AreaPath] UNDER 'Proj'' @ [CHR 0x5C] @
                    ''Team' OR [System.AreaPath] = 'OmniStack' OR [System.AreaPath] UNDER 'WASP')''),
               s')"
    using gen [of "[proj_team, no_path, omni_root, wasp_tree]"]
    by (simp add: usable_def proj_team_def no_path_def omni_root_def wasp_tree_def clause_def
        under_clause_def exact_clause_def get_or_def squote_def)
  from first second third show ?thesis by (intro conjI)
qed

theorem scope_predicate_clauses_witness:
  "fst (get_team_area_predicate
         (tracker (\<lambda>h r. Inr (ok_response (empty_dict\<lparr>j_values :=
            Some [proj_team, no_path, omni_root, wasp_tree]\<rparr>))))
         AZURE_PROJ TEAM_NAME initial)
   = Inr (''('' @ separated '' OR ''
            (map clause (filter usable [proj_team, no_path, omni_root, wasp_tree])) @ '')'')
   \<and> fst (get_team_area_predicate
         (tracker (\<lambda>h r. Inr (ok_response (empty_dict\<lparr>j_values :=
            Some [proj_team, no_path, omni_root, wasp_tree]\<rparr>))))
         AZURE_PROJ TEAM_NAME initial)
   = Inr (''([System.AreaPath] UNDER 'Proj'' @ [CHR 0x5C] @
          ''Team' OR [System.AreaPath] = 'OmniStack' OR [System.AreaPath] UNDER 'WASP')'')
   \<and> fst (get_team_area_predicate
         (tracker (\<lambda>h r. Inr (ok_response (empty_dict\<lparr>j_values := Some [proj_team]\<rparr>))))
         AZURE_PROJ TEAM_NAME initial)
   = Inr (''([System.AreaPath] UNDER 'Proj'' @ [CHR 0x5C] @ ''Team')'')"
proof -
  let ?vals = "[proj_team, no_path, omni_root, wasp_tree]"
  let ?b = "empty_dict\<lparr>j_values := Some ?vals\<rparr>"
  let ?p = "AZURE_PROJ @ ''/'' @ TEAM_NAME @ ''/_apis/work/teamsettings/teamfieldvalues''"
  note fetch = azure_get_ok_response [of ?b ?p "api_version ''6.0''" initial]
  note t = scope_predicate_clauses [OF fetch, of ?vals]
  have v: "j_values ?b = Some ?vals" by simp
  have u: "\<exists>v\<in>set ?vals. usable v"
    by (simp add: usable_def proj_team_def)
  from t [THEN conjunct1, THEN mp, OF conjI [OF v u]]
  have a: "fst (get_team_area_predicate (tracker (\<lambda>h r. Inr (ok_response ?b))) AZURE_PROJ TEAM_NAME initial)
      = Inr (''('' @ separated '' OR '' (map clause (filter usable ?vals)) @ '')'')"
    by (simp only: fst_conv)
  from t [THEN conjunct2, THEN conjunct2, THEN mp, OF v]
  have b: "fst (get_team_area_predicate (tracker (\<lambda>h r. Inr (ok_response ?b))) AZURE_PROJ TEAM_NAME initial)
      = Inr (''([System.AreaPath] UNDER 'Proj'' @ [CHR 0x5C] @
          ''Team' OR [System.AreaPath] = 'OmniStack' OR [System.AreaPath] UNDER 'WASP')'')"
    by (simp only: fst_conv)
  let ?b1 = "empty_dict\<lparr>j_values := Some [proj_team]\<rparr>"
  note fetch1 = azure_get_ok_response [of ?b1 ?p "api_version ''6.0''" initial]
  have v1: "j_values ?b1 = Some [proj_team]" by simp
  from scope_predicate_clauses [OF fetch1, of "[proj_team]", THEN conjunct2, THEN conjunct1, THEN mp, OF v1]
  have c: "fst (get_team_area_predicate (tracker (\<lambda>h r. Inr (ok_response ?b1))) AZURE_PROJ TEAM_NAME initial)
      = Inr (''([System.AreaPath] UNDER 'Proj'' @ [CHR 0x5C] @ ''Team')'')"
    by (simp only: fst_conv)
  from a b c show ?thesis by (intro conjI)
qed

lemma quote_count_append [simp]: "quote_count (a @ b) = quote_count a + quote_count b"
  by (simp add: quote_count_def)

lemma quote_count_separated:
  "quote_count sep = 0 \<Longrightarrow> quote_count (separated sep ps) = sum_list (map quote_count ps)"
proof (cases ps)
  case Nil
  then show ?thesis by (simp add: separated_def quote_count_def)
next
  case (Cons p qs)
  assume z: "quote_count sep = 0"
  have "quote_count (concat (map (\<lambda>q. sep @ q) qs)) = sum_list (map quote_count qs)"
    using z by (induction qs) (simp_all add: quote_count_def)
  with Cons show ?thesis by (simp add: separated_def)
qed

lemma quote_count_clause:
  "quote_count (clause v) = 2 + quote_count (get_or (tfv_value v) [])"
  by (simp add: clause_def under_clause_def exact_clause_def squote_def quote_count_def
      split: option.split bool.split)

lemma even_sum_list: "\<forall>x\<in>set xs. even (f x) \<Longrightarrow> even (sum_list (map f xs))"
  by (induction xs) simp_all

lemma well_quoted_clauses:
  assumes "\<forall>path \<in> set (usable_paths vals). quote_count path = 0"
  shows "well_quoted (''('' @ separated '' OR '' (map clause (filter usable vals)) @ '')'')"
proof -
  have sep: "quote_count '' OR '' = 0" by (simp add: quote_count_def)
  have "\<forall>v \<in> set (filter usable vals). even (quote_count (clause v))"
    using assms by (auto simp: quote_count_clause usable_paths_def)
  then have "even (sum_list (map quote_count (map clause (filter usable vals))))"
    using even_sum_list [of "filter usable vals" "\<lambda>v. quote_count (clause v)"]
    by (simp add: comp_def)
  with quote_count_separated [OF sep, of "map clause (filter usable vals)"]
  show ?thesis by (simp add: well_quoted_def quote_count_def)
qed

lemma azure_get_serving:
  "azure_get (serving b) path params s =
     (Inr b, emit (Request (request_args (serving b) ''GET'' path params None)) s)"
  by (simp add: serving_def replying_def azure_get_ok_response)

text \<open>
  C3, as stated, fails: a path that holds a single quote is put into its clause as it
  is, and the predicate then has a string literal that is not closed.
\<close>

theorem scope_predicate_quote_counterexample:
  "fst (get_team_area_predicate (serving (empty_dict\<lparr>j_values := Some [obrien]\<rparr>))
         AZURE_PROJ TEAM_NAME initial)
     = Inr ''([System.AreaPath] = 'O'Brien')''
   \<and> \<not> well_quoted ''([System.AreaPath] = 'O'Brien')''"
proof -
  let ?b = "empty_dict\<lparr>j_values := Some [obrien]\<rparr>"
  note fetch = azure_get_serving [of ?b
      "AZURE_PROJ @ ''/'' @ TEAM_NAME @ ''/_apis/work/teamsettings/teamfieldvalues''"
      "api_version ''6.0''" initial]
  from predicate_of_data [OF fetch]
  have "fst (get_team_area_predicate (serving ?b) AZURE_PROJ TEAM_NAME initial)
      = Inr ''([System.AreaPath] = 'O'Brien')''"
    by (simp add: get_or_def usable_def obrien_def clause_def exact_clause_def squote_def)
  moreover have "\<not> well_quoted ''([System.AreaPath] = 'O'Brien')''"
    by (simp add: well_quoted_def quote_count_def)
  ultimately show ?thesis by (rule conjI)
qed

text \<open>
  C3, amended. When the team settings are fetched and their values list is absent or
  empty, or no entry of it has a usable path, the predicate is the project clause
  \<open>[System.TeamProject] = '<project>'\<close> for the configured project, and no exception is
  raised. Whatever the team settings are, the result is a string that is not empty:
  the project clause, or the clauses of the entries with a usable path, of which there
  is then at least one, with \<open>' OR '\<close> between them and in one pair of parentheses. It
  is well quoted when no usable path holds a single quote.
\<close>

theorem scope_predicate_fallback:
  assumes "azure_get E (project @ ''/'' @ team @ ''/_apis/work/teamsettings/teamfieldvalues'')
             (api_version ''6.0'') s = (Inr data, s')"
  shows "((get_or (j_values data) [] = [] \<or> (\<forall>v\<in>set (get_or (j_values data) []). \<not> usable v)) \<longrightarrow>
            get_team_area_predicate E project team s =
              (Inr (''[System.TeamProject] = '' @ squote @ AZURE_PROJ @ squote), s'))
         \<and> (\<exists>p. get_team_area_predicate E project team s = (Inr p, s') \<and> p \<noteq> [] \<and>
                (p = ''[System.TeamProject] = 'OmniStack'' @ squote \<or>
                 (filter usable (get_or (j_values data) []) \<noteq> [] \<and>
                  p = ''('' @ separated '' OR ''
                        (map clause (filter usable (get_or (j_values data) []))) @ '')'')) \<and>
                ((\<forall>path \<in> set (usable_paths (get_or (j_values data) [])). quote_count path = 0) \<longrightarrow>
                   well_quoted p))"
proof -
  let ?vals = "get_or (j_values data) []"
  let ?fallback = "''[System.TeamProject] = 'OmniStack'' @ squote"
  note eq = predicate_of_data [OF assms]
  have pc: "project_clause = ?fallback"
    by (simp add: project_clause_def AZURE_PROJ_def squote_def)
  have first: "(?vals = [] \<or> (\<forall>v\<in>set ?vals. \<not> usable v)) \<longrightarrow>
      get_team_area_predicate E project team s =
        (Inr (''[System.TeamProject] = '' @ squote @ AZURE_PROJ @ squote), s')"
  proof
    assume "?vals = [] \<or> (\<forall>v\<in>set ?vals. \<not> usable v)"
    then have "filter usable ?vals = []"
      by (auto simp: filter_empty_conv)
    with eq show "get_team_area_predicate E project team s =
        (Inr (''[System.TeamProject] = '' @ squote @ AZURE_PROJ @ squote), s')"
      by (simp add: project_clause_def)
  qed
  have second: "\<exists>p. get_team_area_predicate E project team s = (Inr p, s') \<and> p \<noteq> [] \<and>
      (p = ?fallback \<or>
       (filter usable ?vals \<noteq> [] \<and>
        p = ''('' @ separated '' OR '' (map clause (filter usable ?vals)) @ '')'')) \<and>
      ((\<forall>path \<in> set (usable_paths ?vals). quote_count path = 0) \<longrightarrow> well_quoted p)"
  proof (cases "filter usable ?vals = []")
    case True
    with eq pc have "get_team_area_predicate E project team s = (Inr ?fallback, s')"
      by simp
    moreover have "?fallback \<noteq> []" by simp
    moreover have "well_quoted ?fallback"
      by (simp add: well_quoted_def quote_count_def squote_def)
    ultimately show ?thesis by blast
  next
    case False
    let ?p = "''('' @ separated '' OR '' (map clause (filter usable ?vals)) @ '')''"
    from False eq have "get_team_area_predicate E project team s = (Inr ?p, s')"
      by (simp add: join_separated)
    moreover have "?p \<noteq> []" by simp
    moreover have "(\<forall>path \<in> set (usable_paths ?vals). quote_count path = 0) \<longrightarrow> well_quoted ?p"
      using well_quoted_clauses [of ?vals] by blast
    ultimately show ?thesis using False by blast
  qed
  from first second show ?thesis by (rule conjI)
qed

theorem scope_predicate_fallback_witness:
  "fst (get_team_area_predicate (replying not_modified) AZURE_PROJ TEAM_NAME initial)
     = Inr (''[System.TeamProject] = 'OmniStack'' @ squote)
   \<and> fst (get_team_area_predicate (serving (empty_dict\<lparr>j_values := Some [no_path]\<rparr>))
         AZURE_PROJ TEAM_NAME initial)
     = Inr (''[System.TeamProject] = 'OmniStack'' @ squote)
   \<and> fst (get_team_area_predicate (serving (empty_dict\<lparr>j_values := Some [no_path, omni_root, wasp_tree]\<rparr>))
         AZURE_PROJ TEAM_NAME initial)
     = Inr ''([System.AreaPath] = 'OmniStack' OR [System.AreaPath] UNDER 'WASP')''
   \<and> well_quoted ''([System.AreaPath] = 'OmniStack' OR [System.AreaPath] UNDER 'WASP')''"
proof -
  let ?p = "AZURE_PROJ @ ''/'' @ TEAM_NAME @ ''/_apis/work/teamsettings/teamfieldvalues''"
  have fetch0: "azure_get (replying not_modified) ?p (api_version ''6.0'') initial =
      (Inr empty_dict, emit (Request (request_args (replying not_modified) ''GET'' ?p (api_version ''6.0'') None)) initial)"
    by (simp add: azure_get_def request'_def replying_def tracker_def not_modified_def
        raise_for_status_def Let_def)
  have h0: "get_or (j_values empty_dict) [] = [] \<or>
      (\<forall>v\<in>set (get_or (j_values empty_dict) []). \<not> usable v)"
    by (simp add: empty_dict_def get_or_def)
  from scope_predicate_fallback [OF fetch0, THEN conjunct1, THEN mp, OF h0]
  have a: "fst (get_team_area_predicate (replying not_modified) AZURE_PROJ TEAM_NAME initial)
      = Inr (''[System.TeamProject] = 'OmniStack'' @ squote)"
    by (simp add: AZURE_PROJ_def squote_def)
  let ?b1 = "empty_dict\<lparr>j_values := Some [no_path]\<rparr>"
  note fetch1 = azure_get_serving [of ?b1 ?p "api_version ''6.0''" initial]
  have h1: "get_or (j_values ?b1) [] = [] \<or> (\<forall>v\<in>set (get_or (j_values ?b1) []). \<not> usable v)"
    by (simp add: get_or_def usable_def no_path_def)
  from scope_predicate_fallback [OF fetch1, THEN conjunct1, THEN mp, OF h1]
  have b: "fst (get_team_area_predicate (serving ?b1) AZURE_PROJ TEAM_NAME initial)
      = Inr (''[System.TeamProject] = 'OmniStack'' @ squote)"
    by (simp add: AZURE_PROJ_def squote_def)
  let ?vals = "[no_path, omni_root, wasp_tree]"
  let ?b2 = "empty_dict\<lparr>j_values := Some ?vals\<rparr>"
  let ?lit = "''([System.AreaPath] = 'OmniStack' OR [System.AreaPath] UNDER 'WASP')''"
  note fetch2 = azure_get_serving [of ?b2 ?p "api_version ''6.0''" initial]
  have f: "filter usable ?vals = [omni_root, wasp_tree]"
    by (simp add: usable_def no_path_def omni_root_def wasp_tree_def)
  have lit: "''('' @ separated '' OR '' (map clause [omni_root, wasp_tree]) @ '')'' = ?lit"
    by (simp add: separated_def clause_def omni_root_def wasp_tree_def under_clause_def
        exact_clause_def get_or_def squote_def)
  have h2: "\<forall>path \<in> set (usable_paths (get_or (j_values ?b2) [])). quote_count path = 0"
    by (simp add: get_or_def usable_paths_def usable_def no_path_def omni_root_def
        wasp_tree_def quote_count_def)
  from scope_predicate_fallback [OF fetch2, THEN conjunct2] obtain p
    where p: "get_team_area_predicate (serving ?b2) AZURE_PROJ TEAM_NAME initial =
        (Inr p, emit (Request (request_args (serving ?b2) ''GET'' ?p (api_version ''6.0'') None)) initial)"
      and shape: "p = ''[System.TeamProject] = 'OmniStack'' @ squote \<or>
        (filter usable (get_or (j_values ?b2) []) \<noteq> [] \<and>
         p = ''('' @ separated '' OR '' (map clause (filter usable (get_or (j_values ?b2) []))) @ '')'')"
      and wq: "(\<forall>path \<in> set (usable_paths (get_or (j_values ?b2) [])). quote_count path = 0) \<longrightarrow>
        well_quoted p"
    by blast
  have vals: "get_or (j_values ?b2) [] = ?vals"
    by (simp add: get_or_def)
  from predicate_of_data [OF fetch2] have "get_team_area_predicate (serving ?b2) AZURE_PROJ TEAM_NAME initial =
      (Inr (''('' @ join '' OR '' (map clause [omni_root, wasp_tree]) @ '')''),
       emit (Request (request_args (serving ?b2) ''GET'' ?p (api_version ''6.0'') None)) initial)"
    unfolding vals f by simp
  with p lit have pl: "p = ?lit" by (simp add: join_separated)
  from p pl have c: "fst (get_team_area_predicate (serving ?b2) AZURE_PROJ TEAM_NAME initial) = Inr ?lit"
    by simp
  from wq h2 pl have d: "well_quoted ?lit" by blast
  from a b c d show ?thesis by (intro conjI)
qed

text \<open>
  C9. An entry with a usable path and no \<^verbatim>\<open>includeChildren\<close> field contributes the
  exact-match clause \<open>[System.AreaPath] = '<path>'\<close> at its place among the clauses, as an
  entry with \<^verbatim>\<open>includeChildren\<close> false does; the inclusive clause with \<open>UNDER\<close> is
  the contribution of an entry only when its \<^verbatim>\<open>includeChildren\<close> is true.
\<close>

theorem missing_include_children_is_exact:
  assumes "azure_get E (project @ ''/'' @ team @ ''/_apis/work/teamsettings/teamfieldvalues'')
             (api_version ''6.0'') s = (Inr data, s')"
    and "j_values data = Some (pre @ v # post)"
    and "tfv_value v = Some p" and "p \<noteq> []"
  shows "(tfv_includeChildren v = None \<longrightarrow>
            get_team_area_predicate E project team s =
              (Inr (''('' @ join '' OR '' (area_parts [] pre @
                      [''[System.AreaPath] = '' @ squote @ p @ squote] @ area_parts [] post) @ '')''), s'))
         \<and> (tfv_includeChildren v \<noteq> Some True \<longrightarrow>
            get_team_area_predicate E project team s =
              (Inr (''('' @ join '' OR '' (area_parts [] pre @
                      [''[System.AreaPath] = '' @ squote @ p @ squote] @ area_parts [] post) @ '')''), s'))
         \<and> (tfv_includeChildren v = Some True \<longrightarrow>
            get_team_area_predicate E project team s =
              (Inr (''('' @ join '' OR '' (area_parts [] pre @
                      [''[System.AreaPath] UNDER '' @ squote @ p @ squote] @ area_parts [] post) @ '')''), s'))"
proof -
  have u: "usable v"
    using assms(3,4) by (simp add: usable_def)
  then have ne: "filter usable (pre @ v # post) \<noteq> []"
    by simp
  have parts: "map clause (filter usable (pre @ v # post)) =
      area_parts [] pre @ [clause v] @ area_parts [] post"
    using u by (simp add: area_parts_clauses)
  have vals: "get_or (j_values data) [] = pre @ v # post"
    using assms(2) by (simp add: get_or_def)
  have "get_team_area_predicate E project team s =
      (Inr (if filter usable (pre @ v # post) = [] then project_clause
            else ''('' @ join '' OR '' (map clause (filter usable (pre @ v # post))) @ '')''), s')"
    using predicate_of_data [OF assms(1)] unfolding vals .
  then have "get_team_area_predicate E project team s =
      (Inr (''('' @ join '' OR '' (map clause (filter usable (pre @ v # post))) @ '')''), s')"
    using ne by (simp only: if_False)
  then have res: "get_team_area_predicate E project team s =
      (Inr (''('' @ join '' OR '' (area_parts [] pre @ [clause v] @ area_parts [] post) @ '')''), s')"
    unfolding parts .
  have exact: "tfv_includeChildren v \<noteq> Some True \<Longrightarrow>
      clause v = ''[System.AreaPath] = '' @ squote @ p @ squote"
    using assms(3)
    by (cases "tfv_includeChildren v") (auto simp: clause_def exact_clause_def get_or_def split: bool.split)
  have under: "tfv_includeChildren v = Some True \<Longrightarrow>
      clause v = ''[System.AreaPath] UNDER '' @ squote @ p @ squote"
    using assms(3) by (simp add: clause_def under_clause_def get_or_def)
  show ?thesis
    using res exact under by auto
qed

theorem missing_include_children_is_exact_witness:
  "fst (get_team_area_predicate
         (tracker (\<lambda>h r. Inr (ok_response (empty_dict\<lparr>j_values :=
            Some [proj_team, \<lparr>tfv_value = Some ''OmniStack'', tfv_includeChildren = None\<rparr>]\<rparr>))))
         AZURE_PROJ TEAM_NAME initial)
     = Inr (''([System.AreaPath] UNDER 'Proj'' @ [CHR 0x5C] @
            ''Team' OR [System.AreaPath] = 'OmniStack')'')"
proof -
  let ?v = "\<lparr>tfv_value = Some ''OmniStack'', tfv_includeChildren = None\<rparr>"
  let ?b = "empty_dict\<lparr>j_values := Some [proj_team, ?v]\<rparr>"
  let ?p = "AZURE_PROJ @ ''/'' @ TEAM_NAME @ ''/_apis/work/teamsettings/teamfieldvalues''"
  note fetch = azure_get_ok_response [of ?b ?p "api_version ''6.0''" initial]
  have vals: "j_values ?b = Some ([proj_team] @ ?v # [])"
    by simp
  have path: "tfv_value ?v = Some ''OmniStack''" "''OmniStack'' \<noteq> []"
    by simp_all
  show ?thesis
    using missing_include_children_is_exact [OF fetch vals path]
    by (simp add: proj_team_def squote_def Let_def get_or_def)
qed

section \<open>The transport client\<close>





section \<open>Board and column resolution\<close>

lemma find_unique:
  "b \<in> set xs \<Longrightarrow> P b \<Longrightarrow> \<forall>x\<in>set xs. P x \<longrightarrow> x = b \<Longrightarrow> find P xs = Some b"
proof (induction xs)
  case Nil
  then show ?case by simp
next
  case (Cons a xs)
  show ?case
  proof (cases "P a")
    case True
    have "a = b"
      using Cons.prems(3) True by (meson list.set_intros(1))
    with True show ?thesis by simp
  next
    case False
    with Cons.prems(1,2) have mem: "b \<in> set xs" by auto
    have uniq: "\<forall>x\<in>set xs. P x \<longrightarrow> x = b"
    proof (intro ballI impI)
      fix x assume "x \<in> set xs" "P x"
      then show "x = b"
        using Cons.prems(3) by (meson list.set_intros(2))
    qed
    have "find P xs = Some b"
      by (rule Cons.IH [OF mem Cons.prems(2) uniq])
    with False show ?thesis by simp
  qed
qed

lemma find_first:
  "\<forall>x\<in>set pre. \<not> P x \<Longrightarrow> P b \<Longrightarrow> find P (pre @ b # post) = Some b"
  by (induction pre) simp_all

lemma find_none: "\<forall>x\<in>set xs. \<not> P x \<Longrightarrow> find P xs = None"
  by (induction xs) simp_all

lemma board_first_match:
  assumes "get_team_boards E project team s = (Inr (pre @ b # post), s')"
    and "\<forall>x\<in>set pre. entry_name x \<noteq> Some board_name"
    and "entry_name b = Some board_name" and "entry_id b = Some i"
  shows "get_board_id_by_name E project team board_name s = (Inr (i, board_name), s')"
  using assms find_first [of pre "\<lambda>b. entry_name b = Some board_name" b post]
  by (simp add: get_board_id_by_name_def subscript_def)

lemma column_first_match:
  assumes "get_board_columns E project team board_id s = (Inr (pre @ c # post), s')"
    and "\<forall>x\<in>set pre. entry_name x \<noteq> Some column_name"
    and "entry_name c = Some column_name" and "entry_id c = Some i"
  shows "get_column_id_by_name E project team board_id column_name s = (Inr (i, column_name), s')"
  using assms find_first [of pre "\<lambda>c. entry_name c = Some column_name" c post]
  by (simp add: get_column_id_by_name_def subscript_def)

lemma get_team_boards_ok_response:
  "get_team_boards (tracker (\<lambda>h r. Inr (ok_response b))) project team s =
     (Inr (get_or (j_value b) []),
      emit (Request (request_args (tracker (\<lambda>h r. Inr (ok_response b))) ''GET''
        (project @ ''/'' @ team @ ''/_apis/work/boards'') (api_version ''6.0-preview.1'') None)) s)"
  by (simp add: get_team_boards_def azure_get_ok_response)

lemma get_board_columns_ok_response:
  "get_board_columns (tracker (\<lambda>h r. Inr (ok_response b))) project team board_id s =
     (Inr (get_or (j_value b) []),
      emit (Request (request_args (tracker (\<lambda>h r. Inr (ok_response b))) ''GET''
        (project @ ''/'' @ team @ ''/_apis/work/boards/'' @ str_ident board_id @ ''/columns'')
        (api_version ''6.0-preview.1'') None)) s)"
  by (simp add: get_board_columns_def azure_get_ok_response)

text \<open>
  C6. Once the list of boards is fetched, \<^verbatim>\<open>get_board_id_by_name\<close> returns the id (with
  the name) of the one entry whose name is equal to the requested name, and fails with
  the \<^verbatim>\<open>RuntimeError\<close> that lists the names of all fetched entries when no entry has
  that name; \<^verbatim>\<open>get_column_id_by_name\<close> does the same on the list of columns. Names are
  compared as strings, so case matters. For the board list \<open>[{name: "Stories", id: 3}]\<close>
  the request \<open>"Stories"\<close> gives id 3 and the request \<open>"Backlog"\<close> fails with the error
  that lists \<open>["Stories"]\<close>.
\<close>

theorem name_resolution:
  "(get_team_boards E project team s = (Inr boards, s') \<longrightarrow>
      (\<forall>b i. b \<in> set boards \<and> entry_name b = Some board_name \<and>
             (\<forall>x\<in>set boards. entry_name x = Some board_name \<longrightarrow> x = b) \<and> entry_id b = Some i \<longrightarrow>
         get_board_id_by_name E project team board_name s = (Inr (i, board_name), s'))
      \<and> ((\<forall>x\<in>set boards. entry_name x \<noteq> Some board_name) \<longrightarrow>
         get_board_id_by_name E project team board_name s =
           (Inl (RuntimeError (BoardNotFound board_name team (map entry_name boards))), s')))
   \<and> (get_board_columns E project team board_id t = (Inr cols, t') \<longrightarrow>
      (\<forall>c i. c \<in> set cols \<and> entry_name c = Some column_name \<and>
             (\<forall>x\<in>set cols. entry_name x = Some column_name \<longrightarrow> x = c) \<and> entry_id c = Some i \<longrightarrow>
         get_column_id_by_name E project team board_id column_name t = (Inr (i, column_name), t'))
      \<and> ((\<forall>x\<in>set cols. entry_name x \<noteq> Some column_name) \<longrightarrow>
         get_column_id_by_name E project team board_id column_name t =
           (Inl (RuntimeError (ColumnNotFound column_name board_id (map entry_name cols))), t')))
   \<and> (get_team_boards E project team s = (Inr [stories], s') \<longrightarrow>
         get_board_id_by_name E project team ''Stories'' s = (Inr (IdNum 3, ''Stories''), s')
       \<and> get_board_id_by_name E project team ''Backlog'' s =
           (Inl (RuntimeError (BoardNotFound ''Backlog'' team [Some ''Stories''])), s'))"
proof -
  have board: "get_board_id_by_name E project team board_name s = (Inr (i, board_name), s')"
    if "get_team_boards E project team s = (Inr boards, s')" "b \<in> set boards"
      "entry_name b = Some board_name"
      "\<forall>x\<in>set boards. entry_name x = Some board_name \<longrightarrow> x = b" "entry_id b = Some i" for b i
  proof -
    have "find (\<lambda>b. entry_name b = Some board_name) boards = Some b"
      using find_unique [of b boards "\<lambda>b. entry_name b = Some board_name"] that(2,3,4)
      by blast
    with that(1,3,5) show ?thesis
      by (simp add: get_board_id_by_name_def subscript_def)
  qed
  have no_board: "get_board_id_by_name E project team board_name s =
      (Inl (RuntimeError (BoardNotFound board_name team (map entry_name boards))), s')"
    if "get_team_boards E project team s = (Inr boards, s')"
      "\<forall>x\<in>set boards. entry_name x \<noteq> Some board_name"
    using that find_none [of boards "\<lambda>b. entry_name b = Some board_name"]
    by (simp add: get_board_id_by_name_def)
  have col: "get_column_id_by_name E project team board_id column_name t = (Inr (i, column_name), t')"
    if "get_board_columns E project team board_id t = (Inr cols, t')" "c \<in> set cols"
      "entry_name c = Some column_name"
      "\<forall>x\<in>set cols. entry_name x = Some column_name \<longrightarrow> x = c" "entry_id c = Some i" for c i
  proof -
    have "find (\<lambda>c. entry_name c = Some column_name) cols = Some c"
      using find_unique [of c cols "\<lambda>c. entry_name c = Some column_name"] that(2,3,4)
      by blast
    with that(1,3,5) show ?thesis
      by (simp add: get_column_id_by_name_def subscript_def)
  qed
  have no_col: "get_column_id_by_name E project team board_id column_name t =
      (Inl (RuntimeError (ColumnNotFound column_name board_id (map entry_name cols))), t')"
    if "get_board_columns E project team board_id t = (Inr cols, t')"
      "\<forall>x\<in>set cols. entry_name x \<noteq> Some column_name"
    using that find_none [of cols "\<lambda>c. entry_name c = Some column_name"]
    by (simp add: get_column_id_by_name_def)
  have example: "get_board_id_by_name E project team ''Stories'' s = (Inr (IdNum 3, ''Stories''), s')
       \<and> get_board_id_by_name E project team ''Backlog'' s =
           (Inl (RuntimeError (BoardNotFound ''Backlog'' team [Some ''Stories''])), s')"
    if "get_team_boards E project team s = (Inr [stories], s')"
    using that by (simp add: get_board_id_by_name_def subscript_def stories_def)
  have B: "get_team_boards E project team s = (Inr boards, s') \<longrightarrow>
      (\<forall>b i. b \<in> set boards \<and> entry_name b = Some board_name \<and>
             (\<forall>x\<in>set boards. entry_name x = Some board_name \<longrightarrow> x = b) \<and> entry_id b = Some i \<longrightarrow>
         get_board_id_by_name E project team board_name s = (Inr (i, board_name), s'))
      \<and> ((\<forall>x\<in>set boards. entry_name x \<noteq> Some board_name) \<longrightarrow>
         get_board_id_by_name E project team board_name s =
           (Inl (RuntimeError (BoardNotFound board_name team (map entry_name boards))), s'))"
    using board no_board by (intro impI conjI allI) (elim conjE, assumption+)
  have C: "get_board_columns E project team board_id t = (Inr cols, t') \<longrightarrow>
      (\<forall>c i. c \<in> set cols \<and> entry_name c = Some column_name \<and>
             (\<forall>x\<in>set cols. entry_name x = Some column_name \<longrightarrow> x = c) \<and> entry_id c = Some i \<longrightarrow>
         get_column_id_by_name E project team board_id column_name t = (Inr (i, column_name), t'))
      \<and> ((\<forall>x\<in>set cols. entry_name x \<noteq> Some column_name) \<longrightarrow>
         get_column_id_by_name E project team board_id column_name t =
           (Inl (RuntimeError (ColumnNotFound column_name board_id (map entry_name cols))), t'))"
    using col no_col by (intro impI conjI allI) (elim conjE, assumption+)
  have X: "get_team_boards E project team s = (Inr [stories], s') \<longrightarrow>
         get_board_id_by_name E project team ''Stories'' s = (Inr (IdNum 3, ''Stories''), s')
       \<and> get_board_id_by_name E project team ''Backlog'' s =
           (Inl (RuntimeError (BoardNotFound ''Backlog'' team [Some ''Stories''])), s')"
    using example by (rule impI)
  show ?thesis
    by (rule conjI [OF B conjI [OF C X]])
qed

theorem name_resolution_witness:
  "fst (get_board_id_by_name (tracker (\<lambda>h r. Inr (ok_response (empty_dict\<lparr>j_value := Some [stories]\<rparr>))))
          AZURE_PROJ TEAM_NAME ''Stories'' initial) = Inr (IdNum 3, ''Stories'')
   \<and> fst (get_board_id_by_name (tracker (\<lambda>h r. Inr (ok_response (empty_dict\<lparr>j_value := Some [stories]\<rparr>))))
          AZURE_PROJ TEAM_NAME ''stories'' initial)
       = Inl (RuntimeError (BoardNotFound ''stories'' ''WASP'' [Some ''Stories'']))
   \<and> fst (get_column_id_by_name (tracker (\<lambda>h r. Inr (ok_response (empty_dict\<lparr>j_value := Some [stories]\<rparr>))))
          AZURE_PROJ TEAM_NAME (IdNum 3) ''Stories'' initial) = Inr (IdNum 3, ''Stories'')
   \<and> fst (get_column_id_by_name (tracker (\<lambda>h r. Inr (ok_response (empty_dict\<lparr>j_value := Some [stories]\<rparr>))))
          AZURE_PROJ TEAM_NAME (IdNum 3) ''Ready for QA'' initial)
       = Inl (RuntimeError (ColumnNotFound ''Ready for QA'' (IdNum 3) [Some ''Stories'']))"
proof -
  let ?b = "empty_dict\<lparr>j_value := Some [stories]\<rparr>"
  let ?E = "tracker (\<lambda>h r. Inr (ok_response ?b))"
  let ?s1 = "snd (get_team_boards ?E AZURE_PROJ TEAM_NAME initial)"
  let ?s2 = "snd (get_board_columns ?E AZURE_PROJ TEAM_NAME (IdNum 3) initial)"
  have boards: "get_team_boards ?E AZURE_PROJ TEAM_NAME initial = (Inr [stories], ?s1)"
    by (simp add: get_team_boards_ok_response get_or_def)
  have cols: "get_board_columns ?E AZURE_PROJ TEAM_NAME (IdNum 3) initial = (Inr [stories], ?s2)"
    by (simp add: get_board_columns_ok_response get_or_def)
  have p1: "stories \<in> set [stories]" by simp
  have p2: "entry_name stories = Some ''Stories''" by (simp add: stories_def)
  have p3: "\<forall>x\<in>set [stories]. entry_name x = Some ''Stories'' \<longrightarrow> x = stories" by simp
  have p4: "entry_id stories = Some (IdNum 3)" by (simp add: stories_def)
  have q1: "\<forall>x\<in>set [stories]. entry_name x \<noteq> Some ''stories''" by (simp add: stories_def)
  have q2: "\<forall>x\<in>set [stories]. entry_name x \<noteq> Some ''Ready for QA''" by (simp add: stories_def)
  have names: "map entry_name [stories] = [Some ''Stories'']" by (simp add: stories_def)
  note found = name_resolution [where E = ?E and project = AZURE_PROJ and team = TEAM_NAME
      and s = initial and boards = "[stories]" and s' = ?s1 and board_name = "''Stories''"
      and board_id = "IdNum 3" and t = initial and cols = "[stories]" and t' = ?s2
      and column_name = "''Stories''"]
  note missing = name_resolution [where E = ?E and project = AZURE_PROJ and team = TEAM_NAME
      and s = initial and boards = "[stories]" and s' = ?s1 and board_name = "''stories''"
      and board_id = "IdNum 3" and t = initial and cols = "[stories]" and t' = ?s2
      and column_name = "''Ready for QA''"]
  note fb = found [THEN conjunct1, THEN mp, OF boards, THEN conjunct1, THEN spec, THEN spec,
      THEN mp, OF conjI [OF p1 conjI [OF p2 conjI [OF p3 p4]]]]
  note fc = found [THEN conjunct2, THEN conjunct1, THEN mp, OF cols, THEN conjunct1, THEN spec,
      THEN spec, THEN mp, OF conjI [OF p1 conjI [OF p2 conjI [OF p3 p4]]]]
  note mb = missing [THEN conjunct1, THEN mp, OF boards, THEN conjunct2, THEN mp, OF q1]
  note mc = missing [THEN conjunct2, THEN conjunct1, THEN mp, OF cols, THEN conjunct2, THEN mp, OF q2]
  have a: "fst (get_board_id_by_name ?E AZURE_PROJ TEAM_NAME ''Stories'' initial)
      = Inr (IdNum 3, ''Stories'')"
    by (simp only: fb fst_conv)
  have b: "fst (get_board_id_by_name ?E AZURE_PROJ TEAM_NAME ''stories'' initial)
       = Inl (RuntimeError (BoardNotFound ''stories'' ''WASP'' [Some ''Stories'']))"
    using mb unfolding names TEAM_NAME_def by (simp only: fst_conv)
  have c: "fst (get_column_id_by_name ?E AZURE_PROJ TEAM_NAME (IdNum 3) ''Stories'' initial)
      = Inr (IdNum 3, ''Stories'')"
    by (simp only: fc fst_conv)
  have d: "fst (get_column_id_by_name ?E AZURE_PROJ TEAM_NAME (IdNum 3) ''Ready for QA'' initial)
       = Inl (RuntimeError (ColumnNotFound ''Ready for QA'' (IdNum 3) [Some ''Stories'']))"
    by (simp only: mc fst_conv names)
  show ?thesis
    by (rule conjI [OF a conjI [OF b conjI [OF c d]]])
qed

section \<open>The poll loop: effects of the parts\<close>

lemma trace_emit [simp]: "trace (emit e s) = trace s @ [e]"
  by (simp add: emit_def)

lemma seen_emit [simp]: "seen_ids (emit e s) = seen_ids s"
  by (simp add: emit_def)

lemma new_events_append: "trace s' = trace s @ evs \<Longrightarrow> new_events s s' = evs"
  by (simp add: new_events_def)

lemma notifs_append [simp]: "notifs (xs @ ys) = notifs xs @ notifs ys"
  by (induction xs rule: notifs.induct) simp_all

lemma notified_append [simp]: "notified (xs @ ys) = notified xs @ notified ys"
  by (simp add: notified_def)

lemma slept_append [simp]: "slept (xs @ ys) = slept xs + slept ys"
  by (induction xs rule: slept.induct) simp_all

lemma request'_state:
  "request' E m p ps js s = (r, s') \<Longrightarrow> s' = emit (Request (request_args E m p ps js)) s"
  by (auto simp: request'_def Let_def split: sum.splits if_splits)

lemma get_work_item_state:
  "get_work_item E project wid s = (r, s') \<Longrightarrow> project = AZURE_PROJ \<Longrightarrow>
     s' = emit (Request (fetch_args E wid)) s"
  by (simp add: get_work_item_def azure_get_def fetch_args_def request'_state)

lemma query_state:
  "query_items_in_board_column E AZURE_PROJ COLUMN_NAME ap s = (r, s') \<Longrightarrow>
     s' = emit (Request (query_args E ap)) s"
  by (auto simp: query_items_in_board_column_def query_args_def azure_post_def Let_def
      split: prod.splits sum.splits dest: request'_state)

lemma is_query_args [simp]: "is_query (Request (query_args E ap))"
  by (simp add: query_args_def request_args_def)

lemma is_fetch_args [simp]: "is_fetch (Request (fetch_args E wid))"
  by (simp add: fetch_args_def request_args_def)

lemma not_query_fetch_args [simp]: "\<not> is_query (Request (fetch_args E wid))"
  by (simp add: fetch_args_def request_args_def)

lemma post_to_slack_cases:
  assumes "post_to_slack E text s = (r, s')"
  shows "r = Inr () \<and>
    (case requests_post E (trace s) (SLACK_WEBHOOK E) (slack_payload text) 10 of
       Inl e \<Rightarrow> s' = emit (Print (Warn e)) (emit (Post (SLACK_WEBHOOK E) (slack_payload text) 10) s)
     | Inr c \<Rightarrow> s' = emit (Post (SLACK_WEBHOOK E) (slack_payload text) 10) s)"
  using assms
  by (auto simp: post_to_slack_def slack_payload_def Let_def split: sum.splits)

text \<open>The four ways through the body of the loop over the items.\<close>

lemma process_item_cases:
  assumes "process_item E itm s = (r, s')"
  obtains
    (no_id) "ref_id itm = None" "r = Inl (KeyError ''id'')" "s' = s"
  | (seen) wid where "ref_id itm = Some wid" "wid \<in> seen_ids s" "r = Inr ()" "s' = s"
  | (failed) wid e where "ref_id itm = Some wid" "wid \<notin> seen_ids s" "r = Inl e"
      "s' = emit (Request (fetch_args E wid)) (s\<lparr>seen_ids := insert wid (seen_ids s)\<rparr>)"
      "fst (get_work_item E AZURE_PROJ wid (s\<lparr>seen_ids := insert wid (seen_ids s)\<rparr>)) = Inl e \<or>
       (\<exists>d. fst (get_work_item E AZURE_PROJ wid (s\<lparr>seen_ids := insert wid (seen_ids s)\<rparr>)) = Inr d
            \<and> \<not> complete d)"
  | (notified) wid tail where "ref_id itm = Some wid" "wid \<notin> seen_ids s" "r = Inr ()"
      "seen_ids s' = insert wid (seen_ids s)"
      "trace s' = trace s @ [Request (fetch_args E wid), Notify wid (insert wid (seen_ids s))] @ tail"
      "notifs tail = []" "list_all (\<lambda>e. \<not> is_query e \<and> \<not> is_sleep e \<and> \<not> is_fetch e) tail"
      "\<exists>d. fst (get_work_item E AZURE_PROJ wid (s\<lparr>seen_ids := insert wid (seen_ids s)\<rparr>)) = Inr d
           \<and> complete d"
proof (cases "ref_id itm")
  case None
  with assms have "r = Inl (KeyError ''id'')" "s' = s"
    by (simp_all add: process_item_def subscript_def)
  with None show ?thesis by (rule no_id)
next
  case (Some wid)
  show ?thesis
  proof (cases "wid \<in> seen_ids s")
    case True
    with assms Some have "r = Inr ()" "s' = s"
      by (simp_all add: process_item_def subscript_def)
    with Some True show ?thesis by (rule seen)
  next
    case False
    let ?s1 = "s\<lparr>seen_ids := insert wid (seen_ids s)\<rparr>"
    let ?s2 = "emit (Request (fetch_args E wid)) ?s1"
    obtain r1 s2 where g: "get_work_item E AZURE_PROJ wid ?s1 = (r1, s2)"
      by (cases "get_work_item E AZURE_PROJ wid ?s1")
    then have s2: "s2 = ?s2"
      by (rule get_work_item_state) simp
    show ?thesis
    proof (cases r1)
      case (Inl e)
      with assms Some False g s2 have "r = Inl e" "s' = ?s2"
        by (simp_all add: process_item_def subscript_def Let_def)
      moreover from g Inl have "fst (get_work_item E AZURE_PROJ wid ?s1) = Inl e" by simp
      ultimately show ?thesis using Some False by (intro failed [of wid e]) simp_all
    next
      case (Inr details)
      show ?thesis
      proof (cases "complete details")
        case incomplete: False
        with assms Some False g s2 Inr have "\<exists>e. r = Inl e" "s' = ?s2"
          by (auto simp: process_item_def subscript_def Let_def complete_def split: option.splits)
        then obtain e where "r = Inl e" "s' = ?s2" by blast
        moreover from g Inr incomplete
        have "\<exists>d. fst (get_work_item E AZURE_PROJ wid ?s1) = Inr d \<and> \<not> complete d" by simp
        ultimately show ?thesis using Some False by (intro failed [of wid e]) simp_all
      next
        case True
        then obtain fs ls h url where d: "j_fields details = Some fs" "j_links details = Some ls"
            "html ls = Some h" "href h = Some url"
          by (auto simp: complete_def split: option.splits)
        let ?s3 = "emit (Notify wid (seen_ids ?s2)) ?s2"
        let ?text = "ticket_text url wid (System_Title fs)"
        from assms Some False g s2 Inr d have p: "post_to_slack E ?text ?s3 = (r, s')"
          by (simp add: process_item_def subscript_def Let_def)
        note c = post_to_slack_cases [OF p]
        from c have r: "r = Inr ()" by simp
        let ?post = "Post (SLACK_WEBHOOK E) (slack_payload ?text) 10"
        from c have "seen_ids s' = seen_ids ?s3 \<and>
            (trace s' = trace ?s3 @ [?post] \<or> (\<exists>e. trace s' = trace ?s3 @ [?post, Print (Warn e)]))"
          by (auto split: sum.splits)
        then obtain tail where seen': "seen_ids s' = insert wid (seen_ids s)"
            and tr0: "trace s' = trace ?s3 @ tail"
            and tail: "tail = [?post] \<or> (\<exists>e. tail = [?post, Print (Warn e)])"
          by auto
        from tr0 have tr: "trace s' = trace s @ [Request (fetch_args E wid), Notify wid (insert wid (seen_ids s))] @ tail"
          by simp
        from tail have n: "notifs tail = []" by auto
        from tail have q: "list_all (\<lambda>e. \<not> is_query e \<and> \<not> is_sleep e \<and> \<not> is_fetch e) tail" by auto
        from g Inr True
        have "\<exists>d. fst (get_work_item E AZURE_PROJ wid ?s1) = Inr d \<and> complete d" by simp
        with Some False r seen' tr n q show ?thesis by (rule notified)
      qed
    qed
  qed
qed

lemma ids_set: "ids items = {w. Some w \<in> set (map ref_id items)}"
  unfolding ids_def by (induction items) (auto simp: List.map_filter_simps split: option.splits)

lemma ids_Nil [simp]: "ids [] = {}"
  by (simp add: ids_set)

lemma ids_Cons: "ids (itm # items) = (case ref_id itm of None \<Rightarrow> {} | Some w \<Rightarrow> {w}) \<union> ids items"
  by (auto simp: ids_set split: option.splits)

lemma ids_append [simp]: "ids (xs @ ys) = ids xs \<union> ids ys"
  by (auto simp: ids_set)

lemma item_run_refl: "item_run [] s [] s"
  by (simp add: item_run_def notified_def)

lemma item_run_trans:
  assumes a: "item_run xs s evs1 s1" and b: "item_run ys s1 evs2 s'"
  shows "item_run (xs @ ys) s (evs1 @ evs2) s'"
proof -
  from a have a1: "trace s1 = trace s @ evs1"
    and a2: "list_all (\<lambda>e. \<not> is_query e \<and> \<not> is_sleep e) evs1"
    and a3: "seen_ids s \<subseteq> seen_ids s1" and a4: "seen_ids s1 \<subseteq> seen_ids s \<union> ids xs"
    and a5: "\<And>w sn. (w, sn) \<in> set (notifs evs1) \<Longrightarrow>
          w \<notin> seen_ids s \<and> w \<in> sn \<and> sn \<subseteq> seen_ids s1 \<and> w \<in> ids xs"
    and a6: "distinct (notified evs1)"
    by (auto simp: item_run_def)
  from b have b1: "trace s' = trace s1 @ evs2"
    and b2: "list_all (\<lambda>e. \<not> is_query e \<and> \<not> is_sleep e) evs2"
    and b3: "seen_ids s1 \<subseteq> seen_ids s'" and b4: "seen_ids s' \<subseteq> seen_ids s1 \<union> ids ys"
    and b5: "\<And>w sn. (w, sn) \<in> set (notifs evs2) \<Longrightarrow>
          w \<notin> seen_ids s1 \<and> w \<in> sn \<and> sn \<subseteq> seen_ids s' \<and> w \<in> ids ys"
    and b6: "distinct (notified evs2)"
    by (auto simp: item_run_def)
  have c1: "trace s' = trace s @ evs1 @ evs2"
    using a1 b1 by simp
  have c2: "list_all (\<lambda>e. \<not> is_query e \<and> \<not> is_sleep e) (evs1 @ evs2)"
    using a2 b2 by simp
  have c3: "seen_ids s \<subseteq> seen_ids s'" "seen_ids s' \<subseteq> seen_ids s \<union> ids (xs @ ys)"
    using a3 a4 b3 b4 by auto
  have c5: "w \<notin> seen_ids s \<and> w \<in> sn \<and> sn \<subseteq> seen_ids s' \<and> w \<in> ids (xs @ ys)"
    if "(w, sn) \<in> set (notifs (evs1 @ evs2))" for w sn
  proof -
    from that have "(w, sn) \<in> set (notifs evs1) \<or> (w, sn) \<in> set (notifs evs2)" by simp
    then show ?thesis
    proof
      assume "(w, sn) \<in> set (notifs evs1)"
      from a5 [OF this] b3 show ?thesis by auto
    next
      assume "(w, sn) \<in> set (notifs evs2)"
      from b5 [OF this] a3 show ?thesis by auto
    qed
  qed
  have disj: "set (notified evs1) \<inter> set (notified evs2) = {}"
  proof (rule ccontr)
    assume "set (notified evs1) \<inter> set (notified evs2) \<noteq> {}"
    then obtain w where w1: "w \<in> set (notified evs1)" and w2: "w \<in> set (notified evs2)" by auto
    from w1 obtain sn where "(w, sn) \<in> set (notifs evs1)" by (auto simp: notified_def)
    from a5 [OF this] have "w \<in> seen_ids s1" by auto
    moreover from w2 obtain sn' where "(w, sn') \<in> set (notifs evs2)" by (auto simp: notified_def)
    from b5 [OF this] have "w \<notin> seen_ids s1" by auto
    ultimately show False by simp
  qed
  have c6: "distinct (notified (evs1 @ evs2))"
    using a6 b6 disj by simp
  show ?thesis
    unfolding item_run_def using c1 c2 c3 c5 c6 by blast
qed

lemma process_item_run:
  assumes "process_item E itm s = (r, s')"
  shows "\<exists>evs. item_run [itm] s evs s'"
  using assms
proof (cases rule: process_item_cases)
  case no_id
  then have "item_run [itm] s [] s'"
    by (simp add: item_run_def notified_def)
  then show ?thesis ..
next
  case (seen wid)
  then have "item_run [itm] s [] s'"
    by (simp add: item_run_def notified_def)
  then show ?thesis ..
next
  case (failed wid e)
  then have "item_run [itm] s [Request (fetch_args E wid)] s'"
    by (auto simp: item_run_def notified_def ids_Cons fetch_args_def request_args_def)
  then show ?thesis ..
next
  case (notified wid tail)
  let ?evs = "[Request (fetch_args E wid), Notify wid (insert wid (seen_ids s))] @ tail"
  have q: "list_all (\<lambda>e. \<not> is_query e \<and> \<not> is_sleep e) ?evs"
    using notified(7) by (simp add: fetch_args_def request_args_def list_all_iff)
  have n: "notifs ?evs = [(wid, insert wid (seen_ids s))]"
    using notified(6) by simp
  have "item_run [itm] s ?evs s'"
    unfolding item_run_def
    using notified(1,2,4,5) q n by (auto simp: notified_def ids_Cons)
  then show ?thesis ..
qed

lemma process_items_run:
  "process_items E items s = (r, s') \<Longrightarrow> \<exists>evs. item_run items s evs s'"
proof (induction items arbitrary: s)
  case Nil
  then have "s' = s" by simp
  with item_run_refl show ?case by blast
next
  case (Cons itm items)
  obtain r1 s1 where p: "process_item E itm s = (r1, s1)"
    by (cases "process_item E itm s")
  from process_item_run [OF p] obtain evs1 where e1: "item_run [itm] s evs1 s1" ..
  show ?case
  proof (cases r1)
    case (Inl e)
    with Cons.prems p have "s' = s1" by simp
    with e1 item_run_trans [OF e1 item_run_refl [of s1]] have "item_run ([itm] @ []) s (evs1 @ []) s'"
      by simp
    moreover have "ids ([itm] @ []) \<subseteq> ids (itm # items)"
      by (auto simp: ids_set)
    ultimately have "item_run (itm # items) s evs1 s'"
      by (auto simp: item_run_def)
    then show ?thesis ..
  next
    case (Inr u)
    with Cons.prems p have "process_items E items s1 = (r, s')" by simp
    from Cons.IH [OF this] obtain evs2 where e2: "item_run items s1 evs2 s'" ..
    from item_run_trans [OF e1 e2] have "item_run (itm # items) s (evs1 @ evs2) s'" by simp
    then show ?thesis ..
  qed
qed

section \<open>The poll loop: cycles and runs\<close>

lemma notifs_set: "set (notifs evs) = {(w, sn). Notify w sn \<in> set evs}"
  by (induction evs rule: notifs.induct) auto

lemma notified_set: "set (notified evs) = {w. \<exists>sn. Notify w sn \<in> set evs}"
  by (auto simp: notified_def notifs_set image_iff)

lemma run_refl: "run s [] s"
  by (simp add: run_def notified_def)

lemma run_emit: "notifs [e] = [] \<Longrightarrow> run s [e] (emit e s)"
  by (simp add: run_def notified_def)

lemma item_run_run: "item_run items s evs s' \<Longrightarrow> run s evs s'"
  by (auto simp: item_run_def run_def)

lemma run_trans:
  assumes a: "run s evs1 s1" and b: "run s1 evs2 s'"
  shows "run s (evs1 @ evs2) s'"
proof -
  from a have a1: "trace s1 = trace s @ evs1" and a3: "seen_ids s \<subseteq> seen_ids s1"
    and a5: "\<And>w sn. (w, sn) \<in> set (notifs evs1) \<Longrightarrow> w \<notin> seen_ids s \<and> w \<in> sn \<and> sn \<subseteq> seen_ids s1"
    and a6: "distinct (notified evs1)"
    by (auto simp: run_def)
  from b have b1: "trace s' = trace s1 @ evs2" and b3: "seen_ids s1 \<subseteq> seen_ids s'"
    and b5: "\<And>w sn. (w, sn) \<in> set (notifs evs2) \<Longrightarrow> w \<notin> seen_ids s1 \<and> w \<in> sn \<and> sn \<subseteq> seen_ids s'"
    and b6: "distinct (notified evs2)"
    by (auto simp: run_def)
  have c1: "trace s' = trace s @ evs1 @ evs2"
    using a1 b1 by simp
  have c3: "seen_ids s \<subseteq> seen_ids s'"
    using a3 b3 by auto
  have c5: "w \<notin> seen_ids s \<and> w \<in> sn \<and> sn \<subseteq> seen_ids s'"
    if "(w, sn) \<in> set (notifs (evs1 @ evs2))" for w sn
  proof -
    from that have "(w, sn) \<in> set (notifs evs1) \<or> (w, sn) \<in> set (notifs evs2)" by simp
    then show ?thesis
    proof
      assume "(w, sn) \<in> set (notifs evs1)"
      from a5 [OF this] b3 show ?thesis by auto
    next
      assume "(w, sn) \<in> set (notifs evs2)"
      from b5 [OF this] a3 show ?thesis by auto
    qed
  qed
  have disj: "set (notified evs1) \<inter> set (notified evs2) = {}"
  proof (rule ccontr)
    assume "set (notified evs1) \<inter> set (notified evs2) \<noteq> {}"
    then obtain w where w1: "w \<in> set (notified evs1)" and w2: "w \<in> set (notified evs2)" by auto
    from w1 obtain sn where "(w, sn) \<in> set (notifs evs1)" by (auto simp: notified_def)
    from a5 [OF this] have "w \<in> seen_ids s1" by auto
    moreover from w2 obtain sn' where "(w, sn') \<in> set (notifs evs2)" by (auto simp: notified_def)
    from b5 [OF this] have "w \<notin> seen_ids s1" by auto
    ultimately show False by simp
  qed
  have c6: "distinct (notified (evs1 @ evs2))"
    using a6 b6 disj by simp
  show ?thesis
    unfolding run_def using c1 c3 c5 c6 by blast
qed

lemma poll_body_run:
  assumes "poll_body E ap s = (r, s')"
  shows "\<exists>evs. item_run (queried E ap s) (emit (Request (query_args E ap)) s) evs s'"
proof -
  obtain r0 s1 where q: "query_items_in_board_column E AZURE_PROJ COLUMN_NAME ap s = (r0, s1)"
    by (cases "query_items_in_board_column E AZURE_PROJ COLUMN_NAME ap s")
  from query_state [OF q] have s1: "s1 = emit (Request (query_args E ap)) s" .
  show ?thesis
  proof (cases r0)
    case (Inl e)
    with q assms have "s' = s1" "queried E ap s = []"
      by (simp_all add: poll_body_def queried_def)
    with s1 item_run_refl show ?thesis by auto
  next
    case (Inr items)
    with q assms have "process_items E items s1 = (r, s')" "queried E ap s = items"
      by (simp_all add: poll_body_def queried_def)
    with s1 process_items_run show ?thesis by auto
  qed
qed

text \<open>
  The shape of one pass of the loop: the query, the events of the items, the error
  line when the body of \<^verbatim>\<open>try\<close> raised, and the sleep.
\<close>

lemma poll_cycle_shape:
  assumes "poll_cycle E ap s = (r, s')"
  shows "r = Inr () \<and>
    (\<exists>evs pr. item_run (queried E ap s) (emit (Request (query_args E ap)) s) evs (snd (poll_body E ap s))
       \<and> seen_ids s' = seen_ids (snd (poll_body E ap s))
       \<and> trace s' = trace s @ [Request (query_args E ap)] @ evs @ pr @ [Sleep POLL_INTERVAL]
       \<and> ((pr = [] \<and> fst (poll_body E ap s) = Inr ())
           \<or> (\<exists>e. pr = [Print (Error e)] \<and> fst (poll_body E ap s) = Inl e)))"
proof -
  obtain r1 s1 where b: "poll_body E ap s = (r1, s1)"
    by (cases "poll_body E ap s")
  from poll_body_run [OF b] obtain evs
    where e: "item_run (queried E ap s) (emit (Request (query_args E ap)) s) evs s1" ..
  then have t1: "trace s1 = trace s @ [Request (query_args E ap)] @ evs"
    by (simp add: item_run_def)
  show ?thesis
  proof (cases r1)
    case (Inl x)
    with b assms have "r = Inr ()" "s' = emit (Sleep POLL_INTERVAL) (emit (Print (Error x)) s1)"
      by (simp_all add: poll_cycle_def)
    with t1 have "r = Inr ()" "seen_ids s' = seen_ids s1"
      "trace s' = trace s @ [Request (query_args E ap)] @ evs @ [Print (Error x)] @ [Sleep POLL_INTERVAL]"
      by simp_all
    with e b Inl show ?thesis by auto
  next
    case (Inr u)
    with b assms have "r = Inr ()" "s' = emit (Sleep POLL_INTERVAL) s1"
      by (simp_all add: poll_cycle_def)
    with t1 have "r = Inr ()" "seen_ids s' = seen_ids s1"
      "trace s' = trace s @ [Request (query_args E ap)] @ evs @ [] @ [Sleep POLL_INTERVAL]"
      by simp_all
    with e b Inr show ?thesis by auto
  qed
qed

lemma poll_cycle_run:
  assumes "poll_cycle E ap s = (r, s')"
  shows "run s (new_events s s') s'"
proof -
  from poll_cycle_shape [OF assms] obtain evs pr
    where e: "item_run (queried E ap s) (emit (Request (query_args E ap)) s) evs (snd (poll_body E ap s))"
      and seen: "seen_ids s' = seen_ids (snd (poll_body E ap s))"
      and tr: "trace s' = trace s @ [Request (query_args E ap)] @ evs @ pr @ [Sleep POLL_INTERVAL]"
      and pr: "pr = [] \<or> (\<exists>e. pr = [Print (Error e)])"
    by auto
  let ?q = "Request (query_args E ap)"
  let ?s1 = "snd (poll_body E ap s)"
  have "run s [?q] (emit ?q s)" by (rule run_emit) simp
  from run_trans [OF this item_run_run [OF e]] have r1: "run s ([?q] @ evs) ?s1" .
  from pr have n: "notifs (pr @ [Sleep POLL_INTERVAL]) = []" by auto
  from r1 have t1: "trace ?s1 = trace s @ [?q] @ evs" by (simp add: run_def)
  have "run ?s1 (pr @ [Sleep POLL_INTERVAL]) s'"
    unfolding run_def using seen tr t1 n by (simp add: notified_def)
  from run_trans [OF r1 this] have "run s ([?q] @ evs @ pr @ [Sleep POLL_INTERVAL]) s'" by simp
  moreover have "new_events s s' = [?q] @ evs @ pr @ [Sleep POLL_INTERVAL]"
    using tr by (rule new_events_append)
  ultimately show ?thesis by simp
qed

lemma run_new_events: "run s evs s' \<Longrightarrow> new_events s s' = evs"
  by (simp add: run_def new_events_def)

lemma poll_loop_run:
  "poll_loop E ap n s = (r, s') \<Longrightarrow> r = Inr () \<and> run s (new_events s s') s'"
proof (induction n arbitrary: s)
  case 0
  then have "r = Inr ()" "s' = s" by simp_all
  moreover have "new_events s s = []" by (simp add: new_events_def)
  ultimately show ?case using run_refl by simp
next
  case (Suc n)
  obtain r1 s1 where c: "poll_cycle E ap s = (r1, s1)"
    by (cases "poll_cycle E ap s")
  from poll_cycle_shape [OF c] have r1: "r1 = Inr ()" by simp
  with Suc.prems c have l: "poll_loop E ap n s1 = (r, s')" by simp
  from Suc.IH [OF l] have r: "r = Inr ()" and b: "run s1 (new_events s1 s') s'" by simp_all
  from run_trans [OF poll_cycle_run [OF c] b]
  have t: "run s (new_events s s1 @ new_events s1 s') s'" .
  from run_new_events [OF t] t have "run s (new_events s s') s'" by simp
  with r show ?case by simp
qed

section \<open>Sample runs\<close>

lemma two_items_cycle:
  "poll_cycle (tracker (\<lambda>h r. Inr (ok_response two_items))) ap seen_101 =
    (Inr (), \<lparr>seen_ids = insert 102 {101},
       trace = [Request (query_args (tracker (\<lambda>h r. Inr (ok_response two_items))) ap),
                Request (fetch_args (tracker (\<lambda>h r. Inr (ok_response two_items))) 102),
                Notify 102 (insert 102 {101}),
                Post (SLACK_WEBHOOK (tracker (\<lambda>h r. Inr (ok_response two_items))))
                  (slack_payload (ticket_text ''https://dev.azure.com/o/p/_workitems/edit/102''
                     102 (Some ''Fix login''))) 10,
                Sleep POLL_INTERVAL]\<rparr>)"
  by (simp add: poll_cycle_def poll_body_def query_items_in_board_column_def azure_post_def
      request'_def raise_for_status_def tracker_def ok_response_def two_items_def seen_101_def
      get_or_def process_item_def subscript_def get_work_item_def azure_get_def
      post_to_slack_def emit_def Let_def query_args_def fetch_args_def slack_payload_def)

lemma two_items_queried:
  "queried (tracker (\<lambda>h r. Inr (ok_response two_items))) ap s =
     [\<lparr>ref_id = Some 101\<rparr>, \<lparr>ref_id = Some 102\<rparr>]"
  by (simp add: queried_def query_items_in_board_column_def azure_post_def request'_def
      raise_for_status_def tracker_def ok_response_def two_items_def get_or_def Let_def)

section \<open>Startup and the whole program\<close>

lemma azure_get_state:
  "azure_get E p ps s = (r, s') \<Longrightarrow> s' = emit (Request (request_args E ''GET'' p ps None)) s"
  by (simp add: azure_get_def request'_state)

lemma get_team_boards_state:
  "get_team_boards E project team s = (r, s') \<Longrightarrow> \<exists>q. s' = emit (Request q) s"
  by (auto simp: get_team_boards_def split: prod.splits sum.splits dest: azure_get_state)

lemma get_board_id_by_name_state:
  "get_board_id_by_name E project team board_name s = (r, s') \<Longrightarrow> \<exists>q. s' = emit (Request q) s"
  by (auto simp: get_board_id_by_name_def split: prod.splits sum.splits option.splits
      dest: get_team_boards_state)

lemma get_board_columns_state:
  "get_board_columns E project team board_id s = (r, s') \<Longrightarrow> \<exists>q. s' = emit (Request q) s"
  by (auto simp: get_board_columns_def split: prod.splits sum.splits dest: azure_get_state)

lemma get_column_id_by_name_state:
  "get_column_id_by_name E project team board_id column_name s = (r, s') \<Longrightarrow>
     \<exists>q. s' = emit (Request q) s"
  by (auto simp: get_column_id_by_name_def split: prod.splits sum.splits option.splits
      dest: get_board_columns_state)

lemma get_team_area_predicate_state:
  "get_team_area_predicate E project team s = (r, s') \<Longrightarrow> \<exists>q. s' = emit (Request q) s"
  by (auto simp: get_team_area_predicate_def Let_def split: prod.splits sum.splits if_splits
      dest: azure_get_state)

lemma ex_run_emit: "notifs [e] = [] \<Longrightarrow> \<exists>evs. run s evs (emit e s)"
  using run_emit by blast

lemma ex_run_trans: "\<exists>evs. run s evs s1 \<Longrightarrow> \<exists>evs. run s1 evs s' \<Longrightarrow> \<exists>evs. run s evs s'"
  using run_trans by blast

lemma main_run: "main E n = (r, s') \<Longrightarrow> \<exists>evs. run initial evs s'"
proof -
  assume m: "main E n = (r, s')"
  obtain r1 s1 where b: "get_board_id_by_name E AZURE_PROJ TEAM_NAME BOARD_NAME initial = (r1, s1)"
    by (cases "get_board_id_by_name E AZURE_PROJ TEAM_NAME BOARD_NAME initial")
  from get_board_id_by_name_state [OF b] have run1: "\<exists>evs. run initial evs s1"
    by (auto intro: ex_run_emit)
  show ?thesis
  proof (cases r1)
    case (Inl e)
    with m b have "s' = s1" by (simp add: main_def)
    with run1 show ?thesis by simp
  next
    case (Inr bn)
    obtain board_id resolved_board_name where bn: "bn = (board_id, resolved_board_name)"
      by (cases bn)
    obtain r2 s2 where c: "get_column_id_by_name E AZURE_PROJ TEAM_NAME board_id COLUMN_NAME s1 = (r2, s2)"
      by (cases "get_column_id_by_name E AZURE_PROJ TEAM_NAME board_id COLUMN_NAME s1")
    from get_column_id_by_name_state [OF c] have "\<exists>evs. run s1 evs s2"
      by (auto intro: ex_run_emit)
    with run1 have run2: "\<exists>evs. run initial evs s2" by (rule ex_run_trans)
    show ?thesis
    proof (cases r2)
      case (Inl e)
      with m b c Inr bn have "s' = s2" by (simp add: main_def)
      with run2 show ?thesis by simp
    next
      case cn: (Inr cn)
      obtain column_id resolved_col_name where cnp: "cn = (column_id, resolved_col_name)"
        by (cases cn)
      let ?s3 = "emit (Print (Monitoring AZURE_ORG AZURE_PROJ TEAM_NAME)) s2"
      let ?s4 = "emit (Print (BoardColumn resolved_board_name board_id resolved_col_name)) ?s3"
      have "\<exists>evs. run s2 evs ?s3" by (rule ex_run_emit) simp
      with run2 have "\<exists>evs. run initial evs ?s3" by (rule ex_run_trans)
      moreover have "\<exists>evs. run ?s3 evs ?s4" by (rule ex_run_emit) simp
      ultimately have run4: "\<exists>evs. run initial evs ?s4" by (rule ex_run_trans)
      obtain r5 s5 where a: "get_team_area_predicate E AZURE_PROJ TEAM_NAME ?s4 = (r5, s5)"
        by (cases "get_team_area_predicate E AZURE_PROJ TEAM_NAME ?s4")
      from get_team_area_predicate_state [OF a] have "\<exists>evs. run ?s4 evs s5"
        by (auto intro: ex_run_emit)
      with run4 have run5: "\<exists>evs. run initial evs s5" by (rule ex_run_trans)
      show ?thesis
      proof (cases r5)
        case (Inl e)
        with m b c Inr bn cn cnp a have "s' = s5" by (simp add: main_def Let_def)
        with run5 show ?thesis by simp
      next
        case ap: (Inr area_predicate)
        let ?s6 = "emit (Print (AreaPredicate area_predicate)) s5"
        have "\<exists>evs. run s5 evs ?s6" by (rule ex_run_emit) simp
        with run5 have run6: "\<exists>evs. run initial evs ?s6" by (rule ex_run_trans)
        from m b c Inr bn cn cnp a ap have l: "poll_loop E area_predicate n ?s6 = (r, s')"
          by (simp add: main_def Let_def)
        from poll_loop_run [OF l] have "\<exists>evs. run ?s6 evs s'" by blast
        with run6 show ?thesis by (rule ex_run_trans)
      qed
    qed
  qed
qed

lemma poll_cycle_items:
  assumes "query_items_in_board_column E AZURE_PROJ COLUMN_NAME ap s = (Inr items, s1)"
    and "process_items E items s1 = (r2, s2)"
  shows "poll_cycle E ap s =
     (Inr (), emit (Sleep POLL_INTERVAL) (case r2 of Inl e \<Rightarrow> emit (Print (Error e)) s2 | Inr u \<Rightarrow> s2))"
  using assms by (simp add: poll_cycle_def poll_body_def split: sum.splits)

section \<open>The poll cycle and the SeenSet\<close>

text \<open>
  C1. In a poll cycle, every call of the Notifier is for the identifier of an item
  returned by the query of the cycle; that identifier was not in the SeenSet when the
  cycle began, and it is in the SeenSet at the moment of the call: it was added before
  the notification attempt. So the Notifier is never called for an identifier returned
  by the query that is already in the SeenSet. The SeenSet only grows.
\<close>

theorem seen_before_notify:
  assumes "poll_cycle E ap s = (r, s')"
  shows "(\<forall>wid sn. Notify wid sn \<in> set (new_events s s') \<longrightarrow>
            wid \<in> ids (queried E ap s) \<and> wid \<notin> seen_ids s \<and> wid \<in> sn \<and> sn \<subseteq> seen_ids s')
         \<and> (\<forall>wid \<in> ids (queried E ap s). wid \<in> seen_ids s \<longrightarrow>
            wid \<notin> set (notified (new_events s s')))
         \<and> seen_ids s \<subseteq> seen_ids s'"
proof -
  from poll_cycle_shape [OF assms] obtain evs pr
    where e: "item_run (queried E ap s) (emit (Request (query_args E ap)) s) evs (snd (poll_body E ap s))"
      and seen: "seen_ids s' = seen_ids (snd (poll_body E ap s))"
      and tr: "trace s' = trace s @ [Request (query_args E ap)] @ evs @ pr @ [Sleep POLL_INTERVAL]"
      and pr: "pr = [] \<or> (\<exists>e. pr = [Print (Error e)])"
    by auto
  from tr have ne: "new_events s s' = [Request (query_args E ap)] @ evs @ pr @ [Sleep POLL_INTERVAL]"
    by (rule new_events_append)
  from pr have n: "notifs (new_events s s') = notifs evs"
    unfolding ne by auto
  from e have sub: "seen_ids s \<subseteq> seen_ids s'"
    and each: "\<And>w sn. (w, sn) \<in> set (notifs evs) \<Longrightarrow>
        w \<in> ids (queried E ap s) \<and> w \<notin> seen_ids s \<and> w \<in> sn \<and> sn \<subseteq> seen_ids s'"
    unfolding item_run_def seen by auto
  have first: "\<forall>wid sn. Notify wid sn \<in> set (new_events s s') \<longrightarrow>
      wid \<in> ids (queried E ap s) \<and> wid \<notin> seen_ids s \<and> wid \<in> sn \<and> sn \<subseteq> seen_ids s'"
  proof (intro allI impI)
    fix wid sn assume "Notify wid sn \<in> set (new_events s s')"
    then have "(wid, sn) \<in> set (notifs (new_events s s'))" by (simp add: notifs_set)
    with n have "(wid, sn) \<in> set (notifs evs)" by simp
    then show "wid \<in> ids (queried E ap s) \<and> wid \<notin> seen_ids s \<and> wid \<in> sn \<and> sn \<subseteq> seen_ids s'"
      by (rule each)
  qed
  have second: "\<forall>wid \<in> ids (queried E ap s). wid \<in> seen_ids s \<longrightarrow>
      wid \<notin> set (notified (new_events s s'))"
  proof (intro ballI impI notI)
    fix wid assume "wid \<in> seen_ids s" "wid \<in> set (notified (new_events s s'))"
    then obtain sn where "Notify wid sn \<in> set (new_events s s')" "wid \<in> seen_ids s"
      by (auto simp: notified_set)
    with first show False by blast
  qed
  from first second sub show ?thesis by (intro conjI)
qed

theorem seen_before_notify_witness:
  "Notify 102 (insert 102 {101}) \<in> set (new_events seen_101
      (snd (poll_cycle (tracker (\<lambda>h r. Inr (ok_response two_items))) project_clause seen_101)))
   \<and> 102 \<notin> seen_ids seen_101
   \<and> 102 \<in> insert 102 {101::int}
   \<and> 101 \<in> seen_ids seen_101
   \<and> 101 \<notin> set (notified (new_events seen_101
      (snd (poll_cycle (tracker (\<lambda>h r. Inr (ok_response two_items))) project_clause seen_101))))"
proof -
  let ?E = "tracker (\<lambda>h r. Inr (ok_response two_items))"
  let ?s' = "snd (poll_cycle ?E project_clause seen_101)"
  have c: "poll_cycle ?E project_clause seen_101 = (Inr (), ?s')"
    by (simp add: two_items_cycle)
  note t = seen_before_notify [OF c]
  have m: "Notify 102 (insert 102 {101}) \<in> set (new_events seen_101 ?s')"
    unfolding two_items_cycle by (simp add: new_events_def seen_101_def)
  from t [THEN conjunct1, THEN spec, THEN spec, THEN mp, OF m]
  have a: "102 \<notin> seen_ids seen_101" "102 \<in> insert 102 {101::int}" by simp_all
  have q: "101 \<in> ids (queried ?E project_clause seen_101)"
    by (simp add: two_items_queried ids_set)
  have s: "101 \<in> seen_ids seen_101"
    by (simp add: seen_101_def)
  from t [THEN conjunct2, THEN conjunct1, THEN bspec, OF q, THEN mp, OF s]
  have b: "101 \<notin> set (notified (new_events seen_101 ?s'))" .
  from m a s b show ?thesis by (intro conjI)
qed

section \<open>At most one notification per item\<close>

lemma scenario_101_102:
  assumes q: "query_items_in_board_column E AZURE_PROJ COLUMN_NAME ap s =
      (Inr [\<lparr>ref_id = Some 101\<rparr>, \<lparr>ref_id = Some 102\<rparr>], s1)"
    and seen: "seen_ids s = {101}"
  shows "seen_ids (snd (poll_cycle E ap s)) = {101, 102}
    \<and> filter is_fetch (new_events s (snd (poll_cycle E ap s))) = [Request (fetch_args E 102)]
    \<and> set (notified (new_events s (snd (poll_cycle E ap s)))) \<subseteq> {102}
    \<and> ((\<forall>t. \<exists>d. fst (get_work_item E AZURE_PROJ 102 t) = Inr d \<and> complete d) \<longrightarrow>
         notified (new_events s (snd (poll_cycle E ap s))) = [102])"
proof -
  let ?q = "Request (query_args E ap)"
  let ?f = "Request (fetch_args E 102)"
  from query_state [OF q] have s1: "s1 = emit ?q s" .
  with seen have seen1: "seen_ids s1 = {101}" by simp
  then have p1: "process_item E \<lparr>ref_id = Some 101\<rparr> s1 = (Inr (), s1)"
    by (simp add: process_item_def subscript_def)
  obtain r2 s2 where p2: "process_item E \<lparr>ref_id = Some 102\<rparr> s1 = (r2, s2)"
    by (cases "process_item E \<lparr>ref_id = Some 102\<rparr> s1")
  with p1 have ps: "process_items E [\<lparr>ref_id = Some 101\<rparr>, \<lparr>ref_id = Some 102\<rparr>] s1 =
      (r2, s2)"
    by (cases r2) simp_all
  note c = poll_cycle_items [OF q ps]
  let ?s' = "snd (poll_cycle E ap s)"
  from p2 show ?thesis
  proof (cases rule: process_item_cases)
    case no_id
    then show ?thesis by simp
  next
    case (seen wid)
    with seen1 show ?thesis by simp
  next
    case (failed wid e)
    then have wid: "wid = 102" by simp
    from failed wid s1 have tr2: "trace s2 = trace s @ [?q, ?f]" and se2: "seen_ids s2 = insert 102 {101}"
      using seen1 by simp_all
    from c failed have s': "?s' = emit (Sleep POLL_INTERVAL) (emit (Print (Error e)) s2)"
      by simp
    with tr2 have "trace ?s' = trace s @ [?q, ?f, Print (Error e), Sleep POLL_INTERVAL]"
      by simp
    then have ne: "new_events s ?s' = [?q, ?f, Print (Error e), Sleep POLL_INTERVAL]"
      by (rule new_events_append)
    from s' se2 have "seen_ids ?s' = {101, 102}" by auto
    moreover have "filter is_fetch (new_events s ?s') = [?f]"
      unfolding ne by (simp add: query_args_def fetch_args_def request_args_def)
    moreover have "notified (new_events s ?s') = []"
      unfolding ne by (simp add: notified_def)
    moreover have "\<not> (\<forall>t. \<exists>d. fst (get_work_item E AZURE_PROJ 102 t) = Inr d \<and> complete d)"
    proof
      assume "\<forall>t. \<exists>d. fst (get_work_item E AZURE_PROJ 102 t) = Inr d \<and> complete d"
      then obtain d where "fst (get_work_item E AZURE_PROJ 102 (s1\<lparr>seen_ids := insert 102 (seen_ids s1)\<rparr>)) = Inr d"
          "complete d"
        by blast
      with failed(5) wid show False by auto
    qed
    ultimately show ?thesis by simp
  next
    case (notified wid tail)
    then have wid: "wid = 102" by simp
    from notified wid s1 seen1
    have tr2: "trace s2 = trace s @ [?q, ?f, Notify 102 (insert 102 {101})] @ tail"
      and se2: "seen_ids s2 = insert 102 {101}"
      by simp_all
    from c notified have s': "?s' = emit (Sleep POLL_INTERVAL) s2"
      by simp
    with tr2 have "trace ?s' = trace s @ ([?q, ?f, Notify 102 (insert 102 {101})] @ tail @ [Sleep POLL_INTERVAL])"
      by simp
    then have ne: "new_events s ?s' = [?q, ?f, Notify 102 (insert 102 {101})] @ tail @ [Sleep POLL_INTERVAL]"
      by (rule new_events_append)
    from notified(7) have nf: "filter is_fetch tail = []"
      by (simp add: list_all_iff)
    from s' se2 have "seen_ids ?s' = {101, 102}" by auto
    moreover have "filter is_fetch (new_events s ?s') = [?f]"
      unfolding ne using nf by (simp add: query_args_def fetch_args_def request_args_def)
    moreover have "notified (new_events s ?s') = [102]"
      unfolding ne using notified(6) by (simp add: notified_def)
    ultimately show ?thesis by simp
  qed
qed

text \<open>
  C4. However many consecutive poll cycles run, from whatever state and whatever the
  query returns in each of them (one unchanged result set in particular), no item
  identifier is notified twice in them; and the whole program, from its start, never
  notifies an identifier twice. When the query of a cycle returns the items 101 and
  102 and the SeenSet is \<open>{101}\<close>, the only detail fetch of the cycle is the one of the
  item 102, no item but 102 is notified, it is notified (once) when its detail fetch
  gives complete details, and the SeenSet is \<open>{101, 102}\<close> after the cycle.
\<close>

theorem at_most_one_notification:
  "distinct (notified (new_events s (snd (poll_loop E ap n s))))
   \<and> distinct (notified (trace (snd (main E n))))
   \<and> (query_items_in_board_column E AZURE_PROJ COLUMN_NAME ap s =
         (Inr [\<lparr>ref_id = Some 101\<rparr>, \<lparr>ref_id = Some 102\<rparr>], s1) \<and> seen_ids s = {101} \<longrightarrow>
       seen_ids (snd (poll_cycle E ap s)) = {101, 102}
       \<and> filter is_fetch (new_events s (snd (poll_cycle E ap s))) = [Request (fetch_args E 102)]
       \<and> set (notified (new_events s (snd (poll_cycle E ap s)))) \<subseteq> {102}
       \<and> ((\<forall>t. \<exists>d. fst (get_work_item E AZURE_PROJ 102 t) = Inr d \<and> complete d) \<longrightarrow>
            notified (new_events s (snd (poll_cycle E ap s))) = [102]))"
proof -
  have "poll_loop E ap n s = (fst (poll_loop E ap n s), snd (poll_loop E ap n s))" by simp
  from poll_loop_run [OF this]
  have a: "distinct (notified (new_events s (snd (poll_loop E ap n s))))"
    by (simp add: run_def)
  have "main E n = (fst (main E n), snd (main E n))" by simp
  from main_run [OF this] obtain evs where "run initial evs (snd (main E n))" ..
  then have b: "distinct (notified (trace (snd (main E n))))"
    by (simp add: run_def initial_def)
  from a b scenario_101_102 [of E ap s s1] show ?thesis by blast
qed

lemma two_items_query:
  "query_items_in_board_column (tracker (\<lambda>h r. Inr (ok_response two_items))) AZURE_PROJ COLUMN_NAME ap s =
     (Inr [\<lparr>ref_id = Some 101\<rparr>, \<lparr>ref_id = Some 102\<rparr>],
      emit (Request (query_args (tracker (\<lambda>h r. Inr (ok_response two_items))) ap)) s)"
  by (simp add: query_items_in_board_column_def azure_post_def request'_def query_args_def
      raise_for_status_def tracker_def ok_response_def two_items_def get_or_def Let_def)

lemma two_items_fetch:
  "\<exists>d. fst (get_work_item (tracker (\<lambda>h r. Inr (ok_response two_items))) AZURE_PROJ wid t) = Inr d
       \<and> complete d"
  by (simp add: get_work_item_def azure_get_ok_response complete_def two_items_def)

theorem at_most_one_notification_witness:
  "seen_ids (snd (poll_cycle (tracker (\<lambda>h r. Inr (ok_response two_items))) project_clause seen_101))
     = {101, 102}
   \<and> filter is_fetch (new_events seen_101
        (snd (poll_cycle (tracker (\<lambda>h r. Inr (ok_response two_items))) project_clause seen_101)))
     = [Request (fetch_args (tracker (\<lambda>h r. Inr (ok_response two_items))) 102)]
   \<and> notified (new_events seen_101
        (snd (poll_cycle (tracker (\<lambda>h r. Inr (ok_response two_items))) project_clause seen_101)))
     = [102]
   \<and> distinct (notified (new_events seen_101
        (snd (poll_loop (tracker (\<lambda>h r. Inr (ok_response two_items))) project_clause 2 seen_101))))"
proof -
  let ?E = "tracker (\<lambda>h r. Inr (ok_response two_items))"
  have s: "seen_ids seen_101 = {101}"
    by (simp add: seen_101_def)
  note q = two_items_query [of project_clause seen_101]
  note t = at_most_one_notification [of seen_101 ?E project_clause 2
      "emit (Request (query_args ?E project_clause)) seen_101"]
  note sc = t [THEN conjunct2, THEN conjunct2, THEN mp, OF conjI [OF q s]]
  have f: "\<forall>t. \<exists>d. fst (get_work_item ?E AZURE_PROJ 102 t) = Inr d \<and> complete d"
    using two_items_fetch by blast
  from sc [THEN conjunct1] sc [THEN conjunct2, THEN conjunct1]
    sc [THEN conjunct2, THEN conjunct2, THEN conjunct2, THEN mp, OF f] t [THEN conjunct1]
  show ?thesis by (intro conjI)
qed

section \<open>Errors in a poll cycle\<close>

lemma process_items_append:
  "process_items E (xs @ ys) s =
     (case process_items E xs s of
        (Inl e, s') \<Rightarrow> (Inl e, s')
      | (Inr u, s') \<Rightarrow> process_items E ys s')"
  by (induction xs arbitrary: s) (auto split: prod.splits sum.splits)

lemma poll_cycle_counts:
  assumes "poll_cycle E ap s = (r, s')"
  shows "\<exists>evs. trace s' = trace s @ evs \<and> length (filter is_query evs) = 1
      \<and> length (filter is_sleep evs) = 1"
proof -
  from poll_cycle_shape [OF assms] obtain evs pr
    where e: "item_run (queried E ap s) (emit (Request (query_args E ap)) s) evs (snd (poll_body E ap s))"
      and tr: "trace s' = trace s @ [Request (query_args E ap)] @ evs @ pr @ [Sleep POLL_INTERVAL]"
      and pr: "pr = [] \<or> (\<exists>e. pr = [Print (Error e)])"
    by auto
  from e have "list_all (\<lambda>e. \<not> is_query e \<and> \<not> is_sleep e) evs"
    by (simp add: item_run_def)
  then have q: "filter is_query evs = []" "filter is_sleep evs = []"
    by (simp_all add: list_all_iff)
  let ?evs = "[Request (query_args E ap)] @ evs @ pr @ [Sleep POLL_INTERVAL]"
  from pr q have "length (filter is_query ?evs) = 1" "length (filter is_sleep ?evs) = 1"
    by (auto simp: query_args_def request_args_def)
  with tr show ?thesis by blast
qed

lemma poll_loop_counts:
  "poll_loop E ap n s = (r, s') \<Longrightarrow>
     \<exists>evs. trace s' = trace s @ evs \<and> length (filter is_query evs) = n
       \<and> length (filter is_sleep evs) = n"
proof (induction n arbitrary: s)
  case 0
  then show ?case by simp
next
  case (Suc n)
  obtain r1 s1 where c: "poll_cycle E ap s = (r1, s1)"
    by (cases "poll_cycle E ap s")
  from poll_cycle_shape [OF c] have "r1 = Inr ()" by simp
  with Suc.prems c have l: "poll_loop E ap n s1 = (r, s')" by simp
  from poll_cycle_counts [OF c] obtain evs1 where 1: "trace s1 = trace s @ evs1"
      "length (filter is_query evs1) = 1" "length (filter is_sleep evs1) = 1"
    by blast
  from Suc.IH [OF l] obtain evs2 where 2: "trace s' = trace s1 @ evs2"
      "length (filter is_query evs2) = n" "length (filter is_sleep evs2) = n"
    by blast
  from 1 2 have "trace s' = trace s @ (evs1 @ evs2)"
      "length (filter is_query (evs1 @ evs2)) = Suc n" "length (filter is_sleep (evs1 @ evs2)) = Suc n"
    by simp_all
  then show ?case by blast
qed

text \<open>
  C5. When the query of a poll cycle raises, the exception is caught and printed, the
  cycle ends with its sleep, and the SeenSet is as before. When the detail fetch of an
  item raises, after the items before it were processed, the exception is caught and
  printed and the cycle ends with its sleep; the SeenSet holds the identifier of the
  item whose fetch raised, and no identifier of the remaining items of the cycle is
  added to it (one that was not seen before and is not the identifier of an item
  already processed is not in the SeenSet after the cycle, so a later cycle takes it
  as new). Whatever is raised, the loop goes on: for every \<open>n\<close> it is still running
  after \<open>n\<close> passes, and has run \<open>n\<close> queries.
\<close>

theorem errors_end_the_cycle_only:
  "(query_items_in_board_column E AZURE_PROJ COLUMN_NAME ap s = (Inl e, s1) \<longrightarrow>
      poll_cycle E ap s = (Inr (), emit (Sleep POLL_INTERVAL) (emit (Print (Error e)) s1))
      \<and> seen_ids s1 = seen_ids s)
   \<and> (query_items_in_board_column E AZURE_PROJ COLUMN_NAME ap s = (Inr (pre @ itm # post), s1) \<and>
      process_items E pre s1 = (Inr (), s2) \<and> ref_id itm = Some wid \<and> wid \<notin> seen_ids s2 \<and>
      get_work_item E AZURE_PROJ wid (s2\<lparr>seen_ids := insert wid (seen_ids s2)\<rparr>) = (Inl e, s3) \<longrightarrow>
        poll_cycle E ap s = (Inr (), emit (Sleep POLL_INTERVAL) (emit (Print (Error e)) s3))
        \<and> seen_ids s3 = insert wid (seen_ids s2)
        \<and> (\<forall>w \<in> ids post. w \<notin> seen_ids s \<and> w \<notin> ids (pre @ [itm]) \<longrightarrow>
             w \<notin> seen_ids (snd (poll_cycle E ap s))))
   \<and> fst (poll_loop E ap n s) = Inr ()
   \<and> length (filter is_query (new_events s (snd (poll_loop E ap n s)))) = n"
proof -
  have first: "poll_cycle E ap s = (Inr (), emit (Sleep POLL_INTERVAL) (emit (Print (Error e)) s1))
      \<and> seen_ids s1 = seen_ids s"
    if q: "query_items_in_board_column E AZURE_PROJ COLUMN_NAME ap s = (Inl e, s1)"
  proof -
    from query_state [OF q] have "seen_ids s1 = seen_ids s" by simp
    moreover from q have "poll_cycle E ap s =
        (Inr (), emit (Sleep POLL_INTERVAL) (emit (Print (Error e)) s1))"
      by (simp add: poll_cycle_def poll_body_def)
    ultimately show ?thesis by simp
  qed
  have second: "poll_cycle E ap s = (Inr (), emit (Sleep POLL_INTERVAL) (emit (Print (Error e)) s3))
        \<and> seen_ids s3 = insert wid (seen_ids s2)
        \<and> (\<forall>w \<in> ids post. w \<notin> seen_ids s \<and> w \<notin> ids (pre @ [itm]) \<longrightarrow>
             w \<notin> seen_ids (snd (poll_cycle E ap s)))"
    if q: "query_items_in_board_column E AZURE_PROJ COLUMN_NAME ap s = (Inr (pre @ itm # post), s1)"
      and p: "process_items E pre s1 = (Inr (), s2)"
      and i: "ref_id itm = Some wid" "wid \<notin> seen_ids s2"
      and g: "get_work_item E AZURE_PROJ wid (s2\<lparr>seen_ids := insert wid (seen_ids s2)\<rparr>) = (Inl e, s3)"
  proof -
    from i g have "process_item E itm s2 = (Inl e, s3)"
      by (simp add: process_item_def subscript_def)
    with p have "process_items E (pre @ itm # post) s1 = (Inl e, s3)"
      by (simp add: process_items_append)
    from poll_cycle_items [OF q this]
    have c: "poll_cycle E ap s = (Inr (), emit (Sleep POLL_INTERVAL) (emit (Print (Error e)) s3))"
      by simp
    from get_work_item_state [OF g] have s3: "seen_ids s3 = insert wid (seen_ids s2)"
      by simp
    from query_state [OF q] have "seen_ids s1 = seen_ids s" by simp
    moreover from process_items_run [OF p] have "seen_ids s2 \<subseteq> seen_ids s1 \<union> ids pre"
      by (auto simp: item_run_def)
    ultimately have "seen_ids s3 \<subseteq> seen_ids s \<union> ids (pre @ [itm])"
      using s3 i(1) by (auto simp: ids_Cons)
    with c have "\<forall>w \<in> ids post. w \<notin> seen_ids s \<and> w \<notin> ids (pre @ [itm]) \<longrightarrow>
        w \<notin> seen_ids (snd (poll_cycle E ap s))"
      by auto
    with c s3 show ?thesis by simp
  qed
  have l: "poll_loop E ap n s = (fst (poll_loop E ap n s), snd (poll_loop E ap n s))" by simp
  from poll_loop_run [OF l] have third: "fst (poll_loop E ap n s) = Inr ()" by simp
  from poll_loop_counts [OF l] obtain evs
    where "trace (snd (poll_loop E ap n s)) = trace s @ evs" "length (filter is_query evs) = n"
    by blast
  then have fourth: "length (filter is_query (new_events s (snd (poll_loop E ap n s)))) = n"
    by (simp add: new_events_def)
  from first second third fourth show ?thesis by blast
qed

lemma failing_fetch_query:
  "query_items_in_board_column (tracker failing_fetch) AZURE_PROJ COLUMN_NAME ap s =
     (Inr [\<lparr>ref_id = Some 101\<rparr>, \<lparr>ref_id = Some 102\<rparr>],
      emit (Request (query_args (tracker failing_fetch) ap)) s)"
  by (simp add: query_items_in_board_column_def azure_post_def request'_def query_args_def
      raise_for_status_def tracker_def failing_fetch_def ok_response_def two_items_def get_or_def
      Let_def request_args_def)

lemma failing_fetch_fetch:
  "get_work_item (tracker failing_fetch) AZURE_PROJ wid s =
     (Inl (HTTPError 500 ''error''), emit (Request (fetch_args (tracker failing_fetch) wid)) s)"
  by (simp add: get_work_item_def azure_get_def request'_def fetch_args_def
      raise_for_status_def tracker_def failing_fetch_def Let_def request_args_def)

lemma refusing_query:
  "query_items_in_board_column (tracker (\<lambda>h r. Inl (RequestException ''connection refused'')))
       AZURE_PROJ COLUMN_NAME ap s =
     (Inl (RequestException ''connection refused''),
      emit (Request (query_args (tracker (\<lambda>h r. Inl (RequestException ''connection refused''))) ap)) s)"
  by (simp add: query_items_in_board_column_def azure_post_def request'_def query_args_def
      tracker_def Let_def)

theorem errors_end_the_cycle_only_witness:
  "poll_cycle (tracker (\<lambda>h r. Inl (RequestException ''connection refused''))) project_clause seen_101 =
     (Inr (), emit (Sleep POLL_INTERVAL)
        (emit (Print (Error (RequestException ''connection refused'')))
           (emit (Request (query_args (tracker (\<lambda>h r. Inl (RequestException ''connection refused'')))
              project_clause)) seen_101)))
   \<and> fst (poll_cycle (tracker failing_fetch) project_clause initial) = Inr ()
   \<and> 101 \<in> seen_ids (snd (poll_cycle (tracker failing_fetch) project_clause initial))
   \<and> 102 \<notin> seen_ids (snd (poll_cycle (tracker failing_fetch) project_clause initial))
   \<and> fst (poll_loop (tracker failing_fetch) project_clause 3 initial) = Inr ()
   \<and> length (filter is_query (new_events initial
        (snd (poll_loop (tracker failing_fetch) project_clause 3 initial)))) = 3"
proof -
  let ?Q = "tracker (\<lambda>h r. Inl (RequestException ''connection refused''))"
  let ?F = "tracker failing_fetch"
  let ?s1 = "emit (Request (query_args ?F project_clause)) initial"
  let ?s3 = "emit (Request (fetch_args ?F 101)) (?s1\<lparr>seen_ids := insert 101 (seen_ids ?s1)\<rparr>)"
  note a = errors_end_the_cycle_only [where E = ?Q and ap = project_clause and s = seen_101
      and e = "RequestException ''connection refused''"
      and ?s1.0 = "emit (Request (query_args ?Q project_clause)) seen_101",
      THEN conjunct1, THEN mp, OF refusing_query, THEN conjunct1]
  note t = errors_end_the_cycle_only [where E = ?F and ap = project_clause and s = initial
      and e = "HTTPError 500 ''error''" and ?s1.0 = ?s1 and ?s2.0 = ?s1 and ?s3.0 = ?s3
      and pre = "[]" and itm = "\<lparr>ref_id = Some 101\<rparr>" and post = "[\<lparr>ref_id = Some 102\<rparr>]"
      and wid = 101 and n = 3]
  have q: "query_items_in_board_column ?F AZURE_PROJ COLUMN_NAME project_clause initial =
      (Inr ([] @ \<lparr>ref_id = Some 101\<rparr> # [\<lparr>ref_id = Some 102\<rparr>]), ?s1)"
    by (simp add: failing_fetch_query)
  have p: "process_items ?F [] ?s1 = (Inr (), ?s1)"
    by simp
  have i: "ref_id \<lparr>ref_id = Some 101\<rparr> = Some 101" "101 \<notin> seen_ids ?s1"
    by (simp_all add: initial_def)
  have g: "get_work_item ?F AZURE_PROJ 101 (?s1\<lparr>seen_ids := insert 101 (seen_ids ?s1)\<rparr>) =
      (Inl (HTTPError 500 ''error''), ?s3)"
    by (rule failing_fetch_fetch)
  note b = t [THEN conjunct2, THEN conjunct1, THEN mp,
      OF conjI [OF q conjI [OF p conjI [OF i(1) conjI [OF i(2) g]]]]]
  from b have b1: "fst (poll_cycle ?F project_clause initial) = Inr ()"
    by simp
  from b have b2: "101 \<in> seen_ids (snd (poll_cycle ?F project_clause initial))"
    by simp
  have m: "102 \<in> ids [\<lparr>ref_id = Some 102\<rparr>]"
      "102 \<notin> seen_ids initial \<and> 102 \<notin> ids ([] @ [\<lparr>ref_id = Some 101\<rparr>])"
    by (simp_all add: ids_set initial_def)
  note b3 = b [THEN conjunct2, THEN conjunct2, THEN bspec, OF m(1), THEN mp, OF m(2)]
  note c = t [THEN conjunct2, THEN conjunct2]
  from a b1 b2 b3 c show ?thesis by (intro conjI) simp_all
qed

section \<open>Failed deliveries\<close>

lemma process_item_ok:
  assumes ok: "\<forall>wid t. \<exists>d. fst (get_work_item E AZURE_PROJ wid t) = Inr d \<and> complete d"
    and id: "ref_id itm = Some wid" and p: "process_item E itm s = (r, s')"
  shows "r = Inr () \<and> seen_ids s' = insert wid (seen_ids s) \<and>
    (\<exists>evs. trace s' = trace s @ evs \<and> set (notified evs) = {wid} - seen_ids s)"
  using p
proof (cases rule: process_item_cases)
  case no_id
  with id show ?thesis by simp
next
  case (seen w)
  with id have "w = wid" by simp
  with seen have "r = Inr ()" "seen_ids s' = insert wid (seen_ids s)" "trace s' = trace s @ []"
      "set (notified []) = {wid} - seen_ids s"
    by (auto simp: notified_def)
  then show ?thesis by blast
next
  case (failed w e)
  from ok obtain d where "fst (get_work_item E AZURE_PROJ w (s\<lparr>seen_ids := insert w (seen_ids s)\<rparr>)) = Inr d"
      "complete d"
    by blast
  with failed(5) show ?thesis by auto
next
  case (notified w tail)
  with id have w: "w = wid" by simp
  let ?evs = "[Request (fetch_args E wid), Notify wid (insert wid (seen_ids s))] @ tail"
  from notified w have "r = Inr ()" "seen_ids s' = insert wid (seen_ids s)" "trace s' = trace s @ ?evs"
      "set (notified ?evs) = {wid} - seen_ids s"
    by (auto simp: notified_def)
  then show ?thesis by blast
qed

lemma process_items_ok:
  assumes ok: "\<forall>wid t. \<exists>d. fst (get_work_item E AZURE_PROJ wid t) = Inr d \<and> complete d"
  shows "\<forall>itm \<in> set items. ref_id itm \<noteq> None \<Longrightarrow> process_items E items s = (r, s') \<Longrightarrow>
    r = Inr () \<and> seen_ids s' = seen_ids s \<union> ids items \<and>
    (\<exists>evs. trace s' = trace s @ evs \<and> set (notified evs) = ids items - seen_ids s)"
proof (induction items arbitrary: s)
  case Nil
  then have "r = Inr ()" "seen_ids s' = seen_ids s \<union> ids []" "trace s' = trace s @ []"
      "set (notified []) = ids [] - seen_ids s"
    by (simp_all add: notified_def)
  then show ?case by blast
next
  case (Cons itm items)
  from Cons.prems(1) obtain wid where id: "ref_id itm = Some wid" by auto
  obtain r1 s1 where p: "process_item E itm s = (r1, s1)"
    by (cases "process_item E itm s")
  from process_item_ok [OF ok id p] obtain evs1
    where 1: "r1 = Inr ()" "seen_ids s1 = insert wid (seen_ids s)" "trace s1 = trace s @ evs1"
      "set (notified evs1) = {wid} - seen_ids s"
    by blast
  with Cons.prems(2) p have l: "process_items E items s1 = (r, s')" by simp
  from Cons.prems(1) have "\<forall>itm \<in> set items. ref_id itm \<noteq> None" by simp
  from Cons.IH [OF this l] obtain evs2
    where 2: "r = Inr ()" "seen_ids s' = seen_ids s1 \<union> ids items" "trace s' = trace s1 @ evs2"
      "set (notified evs2) = ids items - seen_ids s1"
    by blast
  from id have i: "ids (itm # items) = insert wid (ids items)"
    by (simp add: ids_Cons)
  from 1 2 i have "r = Inr ()" "seen_ids s' = seen_ids s \<union> ids (itm # items)"
      "trace s' = trace s @ (evs1 @ evs2)"
      "set (notified (evs1 @ evs2)) = ids (itm # items) - seen_ids s"
    by auto
  then show ?case by blast
qed

text \<open>
  C7. \<^verbatim>\<open>post_to_slack\<close> always returns normally and leaves the SeenSet as it is; when
  the post to the webhook raises (a timeout, say), it prints the warning. So a cycle
  whose query and detail fetches succeed completes without raising whatever the
  deliveries do: every item of the query result is then in the SeenSet, and every new
  one was handed to the Notifier. An item handed to the Notifier in a cycle is in the
  SeenSet after the cycle and is not notified in any of the following cycles. Whatever
  the deliveries do, the loop goes on: after a cycle, a loop of \<open>n + 1\<close> passes does the
  \<open>n\<close> remaining passes from the state the cycle left; \<open>n\<close> passes return normally
  and send exactly \<open>n\<close> queries; and the second pass starts with its query, right after
  the events of the first, and ends with the sleep.
\<close>

theorem delivery_failure_contained:
  "fst (post_to_slack E message s) = Inr ()
   \<and> seen_ids (snd (post_to_slack E message s)) = seen_ids s
   \<and> (requests_post E (trace s) (SLACK_WEBHOOK E) (slack_payload message) 10 = Inl e \<longrightarrow>
        trace (snd (post_to_slack E message s)) =
          trace s @ [Post (SLACK_WEBHOOK E) (slack_payload message) 10, Print (Warn e)])
   \<and> (query_items_in_board_column E AZURE_PROJ COLUMN_NAME ap s = (Inr items, s1) \<and>
        (\<forall>itm \<in> set items. ref_id itm \<noteq> None) \<and>
        (\<forall>wid t. \<exists>d. fst (get_work_item E AZURE_PROJ wid t) = Inr d \<and> complete d) \<longrightarrow>
          fst (poll_body E ap s) = Inr ()
          \<and> seen_ids (snd (poll_cycle E ap s)) = seen_ids s \<union> ids items
          \<and> set (notified (new_events s (snd (poll_cycle E ap s)))) = ids items - seen_ids s)
   \<and> (Notify wid sn \<in> set (new_events s (snd (poll_cycle E ap s))) \<longrightarrow>
        wid \<in> seen_ids (snd (poll_cycle E ap s))
        \<and> wid \<notin> set (notified (new_events (snd (poll_cycle E ap s))
                  (snd (poll_loop E ap n (snd (poll_cycle E ap s)))))))
   \<and> poll_loop E ap (Suc n) s = poll_loop E ap n (snd (poll_cycle E ap s))
   \<and> fst (poll_loop E ap n s) = Inr ()
   \<and> length (filter is_query (new_events s (snd (poll_loop E ap n s)))) = n
   \<and> (\<exists>evs. new_events s (snd (poll_loop E ap 2 s)) =
          new_events s (snd (poll_cycle E ap s))
          @ Request (query_args E ap) # evs @ [Sleep POLL_INTERVAL])"
proof -
  have p: "post_to_slack E message s = (fst (post_to_slack E message s), snd (post_to_slack E message s))"
    by simp
  note c = post_to_slack_cases [OF p]
  from c have first: "fst (post_to_slack E message s) = Inr ()" by simp
  from c have second: "seen_ids (snd (post_to_slack E message s)) = seen_ids s"
    by (auto split: sum.splits)
  from c have third: "requests_post E (trace s) (SLACK_WEBHOOK E) (slack_payload message) 10 = Inl e \<longrightarrow>
      trace (snd (post_to_slack E message s)) =
        trace s @ [Post (SLACK_WEBHOOK E) (slack_payload message) 10, Print (Warn e)]"
    by (auto split: sum.splits)
  let ?s' = "snd (poll_cycle E ap s)"
  have fourth: "fst (poll_body E ap s) = Inr ()
      \<and> seen_ids ?s' = seen_ids s \<union> ids items
      \<and> set (notified (new_events s ?s')) = ids items - seen_ids s"
    if q: "query_items_in_board_column E AZURE_PROJ COLUMN_NAME ap s = (Inr items, s1)"
      and i: "\<forall>itm \<in> set items. ref_id itm \<noteq> None"
      and ok: "\<forall>wid t. \<exists>d. fst (get_work_item E AZURE_PROJ wid t) = Inr d \<and> complete d"
  proof -
    obtain r2 s2 where ps: "process_items E items s1 = (r2, s2)"
      by (cases "process_items E items s1")
    from process_items_ok [OF ok i ps] obtain evs
      where 1: "r2 = Inr ()" "seen_ids s2 = seen_ids s1 \<union> ids items" "trace s2 = trace s1 @ evs"
        "set (notified evs) = ids items - seen_ids s1"
      by blast
    from query_state [OF q] have s1: "s1 = emit (Request (query_args E ap)) s" .
    from q ps 1(1) have b: "fst (poll_body E ap s) = Inr ()"
      by (simp add: poll_body_def)
    from poll_cycle_items [OF q ps] 1(1) have c: "?s' = emit (Sleep POLL_INTERVAL) s2"
      by simp
    with 1 s1 have "trace ?s' = trace s @ ([Request (query_args E ap)] @ evs @ [Sleep POLL_INTERVAL])"
      by simp
    then have "new_events s ?s' = [Request (query_args E ap)] @ evs @ [Sleep POLL_INTERVAL]"
      by (rule new_events_append)
    then have "set (notified (new_events s ?s')) = set (notified evs)"
      by (simp add: notified_def)
    with 1 s1 c b show ?thesis by simp
  qed
  have fifth: "wid \<in> seen_ids ?s'
      \<and> wid \<notin> set (notified (new_events ?s' (snd (poll_loop E ap n ?s'))))"
    if m: "Notify wid sn \<in> set (new_events s ?s')"
  proof -
    have "poll_cycle E ap s = (fst (poll_cycle E ap s), ?s')" by simp
    from poll_cycle_run [OF this] m have w: "wid \<in> seen_ids ?s'"
      by (auto simp: run_def notifs_set)
    have "poll_loop E ap n ?s' = (fst (poll_loop E ap n ?s'), snd (poll_loop E ap n ?s'))" by simp
    from poll_loop_run [OF this]
    have "\<forall>(w, sn) \<in> set (notifs (new_events ?s' (snd (poll_loop E ap n ?s')))). w \<notin> seen_ids ?s'"
      by (auto simp: run_def)
    with w have "wid \<notin> set (notified (new_events ?s' (snd (poll_loop E ap n ?s'))))"
      by (auto simp: notified_def)
    with w show ?thesis by simp
  qed
  obtain sc where cyc: "poll_cycle E ap s = (Inr (), sc)"
  proof -
    have c: "poll_cycle E ap s = (fst (poll_cycle E ap s), ?s')" by simp
    from poll_cycle_shape [OF c] have "fst (poll_cycle E ap s) = Inr ()" by simp
    with c have "poll_cycle E ap s = (Inr (), ?s')" by (simp only:)
    then show ?thesis by (rule that)
  qed
  have sc: "?s' = sc" by (simp add: cyc)
  have sixth: "poll_loop E ap (Suc n) s = poll_loop E ap n ?s'"
    by (simp add: cyc)
  have l: "poll_loop E ap n s = (fst (poll_loop E ap n s), snd (poll_loop E ap n s))"
    by simp
  from poll_loop_run [OF l] have seventh: "fst (poll_loop E ap n s) = Inr ()"
    by simp
  from poll_loop_counts [OF l] obtain evs
    where "trace (snd (poll_loop E ap n s)) = trace s @ evs" "length (filter is_query evs) = n"
    by blast
  with new_events_append [of "snd (poll_loop E ap n s)" s evs]
  have eighth: "length (filter is_query (new_events s (snd (poll_loop E ap n s)))) = n"
    by simp
  have ninth: "\<exists>evs. new_events s (snd (poll_loop E ap 2 s)) =
      new_events s ?s' @ Request (query_args E ap) # evs @ [Sleep POLL_INTERVAL]"
  proof -
    obtain r2 s2 where c2: "poll_cycle E ap sc = (r2, s2)"
      by (cases "poll_cycle E ap sc")
    from poll_cycle_shape [OF c2] obtain evs pr
      where r2: "r2 = Inr ()"
        and t2: "trace s2 = trace sc @ [Request (query_args E ap)] @ evs @ pr @ [Sleep POLL_INTERVAL]"
      by blast
    from poll_cycle_counts [OF cyc] obtain evs1 where t1: "trace sc = trace s @ evs1"
      by blast
    from cyc c2 r2 have "poll_loop E ap 2 s = (Inr (), s2)"
      by (simp add: numeral_2_eq_2)
    then have "snd (poll_loop E ap 2 s) = s2" by simp
    moreover from t1 have "new_events s sc = evs1" by (rule new_events_append)
    moreover from t1 t2
    have "trace s2 = trace s @ (evs1 @ Request (query_args E ap) # (evs @ pr) @ [Sleep POLL_INTERVAL])"
      by simp
    then have "new_events s s2 = evs1 @ Request (query_args E ap) # (evs @ pr) @ [Sleep POLL_INTERVAL]"
      by (rule new_events_append)
    ultimately have "new_events s (snd (poll_loop E ap 2 s)) =
        new_events s ?s' @ Request (query_args E ap) # (evs @ pr) @ [Sleep POLL_INTERVAL]"
      unfolding sc by simp
    then show ?thesis ..
  qed
  from fourth have fourth': "query_items_in_board_column E AZURE_PROJ COLUMN_NAME ap s = (Inr items, s1) \<and>
      (\<forall>itm \<in> set items. ref_id itm \<noteq> None) \<and>
      (\<forall>wid t. \<exists>d. fst (get_work_item E AZURE_PROJ wid t) = Inr d \<and> complete d) \<longrightarrow>
        fst (poll_body E ap s) = Inr ()
        \<and> seen_ids ?s' = seen_ids s \<union> ids items
        \<and> set (notified (new_events s ?s')) = ids items - seen_ids s"
    by blast
  from fifth have fifth': "Notify wid sn \<in> set (new_events s ?s') \<longrightarrow>
      wid \<in> seen_ids ?s'
      \<and> wid \<notin> set (notified (new_events ?s' (snd (poll_loop E ap n ?s'))))"
    by blast
  from first second third fourth' fifth' sixth seventh eighth ninth
  show ?thesis by (intro conjI)
qed

lemma timing_out_cycle:
  "poll_cycle (timing_out (tracker (\<lambda>h r. Inr (ok_response two_items)))) ap seen_101 =
    (Inr (), \<lparr>seen_ids = insert 102 {101},
       trace = [Request (query_args (timing_out (tracker (\<lambda>h r. Inr (ok_response two_items)))) ap),
                Request (fetch_args (timing_out (tracker (\<lambda>h r. Inr (ok_response two_items)))) 102),
                Notify 102 (insert 102 {101}),
                Post (SLACK_WEBHOOK (timing_out (tracker (\<lambda>h r. Inr (ok_response two_items)))))
                  (slack_payload (ticket_text ''https://dev.azure.com/o/p/_workitems/edit/102''
                     102 (Some ''Fix login''))) 10,
                Print (Warn (RequestException ''timeout'')),
                Sleep POLL_INTERVAL]\<rparr>)"
  by (simp add: poll_cycle_def poll_body_def query_items_in_board_column_def azure_post_def
      request'_def raise_for_status_def tracker_def timing_out_def ok_response_def two_items_def
      seen_101_def get_or_def process_item_def subscript_def get_work_item_def azure_get_def
      post_to_slack_def emit_def Let_def query_args_def fetch_args_def slack_payload_def)

lemma timing_out_query:
  "query_items_in_board_column (timing_out (tracker (\<lambda>h r. Inr (ok_response two_items))))
       AZURE_PROJ COLUMN_NAME ap s =
     (Inr [\<lparr>ref_id = Some 101\<rparr>, \<lparr>ref_id = Some 102\<rparr>],
      emit (Request (query_args (timing_out (tracker (\<lambda>h r. Inr (ok_response two_items)))) ap)) s)"
  by (simp add: query_items_in_board_column_def azure_post_def request'_def query_args_def
      raise_for_status_def tracker_def timing_out_def ok_response_def two_items_def get_or_def
      Let_def request_args_def)

lemma timing_out_fetch:
  "\<exists>d. fst (get_work_item (timing_out (tracker (\<lambda>h r. Inr (ok_response two_items)))) AZURE_PROJ wid t)
         = Inr d \<and> complete d"
  by (simp add: get_work_item_def azure_get_def request'_def raise_for_status_def tracker_def
      timing_out_def ok_response_def complete_def two_items_def Let_def)

lemma timing_out_two_cycles:
  "new_events seen_101
     (snd (poll_loop (timing_out (tracker (\<lambda>h r. Inr (ok_response two_items)))) ap 2 seen_101)) =
     [Request (query_args (timing_out (tracker (\<lambda>h r. Inr (ok_response two_items)))) ap),
      Request (fetch_args (timing_out (tracker (\<lambda>h r. Inr (ok_response two_items)))) 102),
      Notify 102 (insert 102 {101}),
      Post (SLACK_WEBHOOK (timing_out (tracker (\<lambda>h r. Inr (ok_response two_items)))))
        (slack_payload (ticket_text ''https://dev.azure.com/o/p/_workitems/edit/102''
           102 (Some ''Fix login''))) 10,
      Print (Warn (RequestException ''timeout'')),
      Sleep POLL_INTERVAL,
      Request (query_args (timing_out (tracker (\<lambda>h r. Inr (ok_response two_items)))) ap),
      Sleep POLL_INTERVAL]"
proof -
  let ?T = "timing_out (tracker (\<lambda>h r. Inr (ok_response two_items)))"
  let ?first = "[Request (query_args ?T ap), Request (fetch_args ?T 102),
      Notify 102 (insert 102 {101}),
      Post (SLACK_WEBHOOK ?T)
        (slack_payload (ticket_text ''https://dev.azure.com/o/p/_workitems/edit/102''
           102 (Some ''Fix login''))) 10,
      Print (Warn (RequestException ''timeout'')), Sleep POLL_INTERVAL]"
  let ?s1 = "\<lparr>seen_ids = insert 102 {101}, trace = ?first\<rparr>"
  let ?s2 = "emit (Sleep POLL_INTERVAL) (emit (Request (query_args ?T ap)) ?s1)"
  have c1: "poll_cycle ?T ap seen_101 = (Inr (), ?s1)"
    by (rule timing_out_cycle)
  have c2: "poll_cycle ?T ap ?s1 = (Inr (), ?s2)"
    by (simp add: poll_cycle_def poll_body_def timing_out_query process_item_def subscript_def)
  have "poll_loop ?T ap 2 seen_101 = (Inr (), ?s2)"
    by (simp add: numeral_2_eq_2 c1 c2)
  then show ?thesis
    by (simp add: new_events_def seen_101_def emit_def)
qed

theorem delivery_failure_contained_witness:
  "fst (post_to_slack (timing_out (tracker (\<lambda>h r. Inr (ok_response two_items)))) ''hello'' seen_101)
     = Inr ()
   \<and> trace (snd (post_to_slack (timing_out (tracker (\<lambda>h r. Inr (ok_response two_items))))
        ''hello'' seen_101))
     = trace seen_101 @
       [Post (SLACK_WEBHOOK (timing_out (tracker (\<lambda>h r. Inr (ok_response two_items)))))
          (slack_payload ''hello'') 10,
        Print (Warn (RequestException ''timeout''))]
   \<and> fst (poll_body (timing_out (tracker (\<lambda>h r. Inr (ok_response two_items)))) project_clause seen_101)
     = Inr ()
   \<and> set (notified (new_events seen_101
        (snd (poll_cycle (timing_out (tracker (\<lambda>h r. Inr (ok_response two_items))))
           project_clause seen_101))))
     = ids [\<lparr>ref_id = Some 101\<rparr>, \<lparr>ref_id = Some 102\<rparr>] - seen_ids seen_101
   \<and> 102 \<in> seen_ids (snd (poll_cycle (timing_out (tracker (\<lambda>h r. Inr (ok_response two_items))))
        project_clause seen_101))
   \<and> 102 \<notin> set (notified (new_events
        (snd (poll_cycle (timing_out (tracker (\<lambda>h r. Inr (ok_response two_items))))
           project_clause seen_101))
        (snd (poll_loop (timing_out (tracker (\<lambda>h r. Inr (ok_response two_items)))) project_clause 2
           (snd (poll_cycle (timing_out (tracker (\<lambda>h r. Inr (ok_response two_items))))
              project_clause seen_101))))))
   \<and> fst (poll_loop (timing_out (tracker (\<lambda>h r. Inr (ok_response two_items)))) project_clause 2
        seen_101) = Inr ()
   \<and> length (filter is_query (new_events seen_101
        (snd (poll_loop (timing_out (tracker (\<lambda>h r. Inr (ok_response two_items)))) project_clause 2
           seen_101)))) = 2
   \<and> new_events seen_101
        (snd (poll_loop (timing_out (tracker (\<lambda>h r. Inr (ok_response two_items)))) project_clause 2
           seen_101)) =
       [Request (query_args (timing_out (tracker (\<lambda>h r. Inr (ok_response two_items)))) project_clause),
        Request (fetch_args (timing_out (tracker (\<lambda>h r. Inr (ok_response two_items)))) 102),
        Notify 102 (insert 102 {101}),
        Post (SLACK_WEBHOOK (timing_out (tracker (\<lambda>h r. Inr (ok_response two_items)))))
          (slack_payload (ticket_text ''https://dev.azure.com/o/p/_workitems/edit/102''
             102 (Some ''Fix login''))) 10,
        Print (Warn (RequestException ''timeout'')),
        Sleep POLL_INTERVAL,
        Request (query_args (timing_out (tracker (\<lambda>h r. Inr (ok_response two_items)))) project_clause),
        Sleep POLL_INTERVAL]"
proof -
  let ?T = "timing_out (tracker (\<lambda>h r. Inr (ok_response two_items)))"
  note t = delivery_failure_contained [where E = ?T and message = "''hello''" and s = seen_101
      and e = "RequestException ''timeout''" and ap = project_clause
      and items = "[\<lparr>ref_id = Some 101\<rparr>, \<lparr>ref_id = Some 102\<rparr>]"
      and ?s1.0 = "emit (Request (query_args ?T project_clause)) seen_101"
      and wid = 102 and sn = "insert 102 {101}" and n = 2]
  have post: "requests_post ?T (trace seen_101) (SLACK_WEBHOOK ?T) (slack_payload ''hello'') 10 =
      Inl (RequestException ''timeout'')"
    by (simp add: timing_out_def)
  have i: "\<forall>itm \<in> set [\<lparr>ref_id = Some 101\<rparr>, \<lparr>ref_id = Some 102\<rparr>]. ref_id itm \<noteq> None"
    by simp
  have f: "\<forall>wid t. \<exists>d. fst (get_work_item ?T AZURE_PROJ wid t) = Inr d \<and> complete d"
    using timing_out_fetch by blast
  have m: "Notify 102 (insert 102 {101}) \<in> set (new_events seen_101 (snd (poll_cycle ?T project_clause seen_101)))"
    unfolding timing_out_cycle by (simp add: new_events_def seen_101_def)
  note a = t [THEN conjunct1]
  note b = t [THEN conjunct2, THEN conjunct2, THEN conjunct1, THEN mp, OF post]
  note c = t [THEN conjunct2, THEN conjunct2, THEN conjunct2, THEN conjunct1, THEN mp,
      OF conjI [OF timing_out_query conjI [OF i f]]]
  note d = t [THEN conjunct2, THEN conjunct2, THEN conjunct2, THEN conjunct2, THEN conjunct1,
      THEN mp, OF m]
  note r = t [THEN conjunct2, THEN conjunct2, THEN conjunct2, THEN conjunct2, THEN conjunct2,
      THEN conjunct2]
  note g = timing_out_two_cycles [of project_clause]
  from a b c [THEN conjunct1] c [THEN conjunct2, THEN conjunct2] d [THEN conjunct1] d [THEN conjunct2]
    r [THEN conjunct1] r [THEN conjunct2, THEN conjunct1] g
  show ?thesis by (intro conjI)
qed

section \<open>The sleep between two queries\<close>

lemma well_spaced_append:
  "well_spaced t (xs @ ys) = (well_spaced t xs \<and> well_spaced (gap t xs) ys)"
  by (induction t xs rule: well_spaced.induct) auto

lemma gap_append: "gap t (xs @ ys) = gap (gap t xs) ys"
  by (induction t xs rule: gap.induct) auto

lemma quiet_spaced:
  "list_all (\<lambda>e. \<not> is_query e \<and> \<not> is_sleep e) evs \<Longrightarrow> well_spaced t evs \<and> gap t evs = t"
proof (induction evs)
  case Nil
  show ?case by simp
next
  case (Cons e evs)
  then show ?case by (cases e) simp_all
qed

lemma spaced_until_query:
  "well_spaced t (ys @ q # zs) \<Longrightarrow> is_query q \<Longrightarrow> POLL_INTERVAL \<le> t + slept ys"
proof (induction ys arbitrary: t)
  case Nil
  then show ?case by (cases q) (simp_all split: if_splits)
next
  case (Cons y ys)
  show ?case
  proof (cases y)
    case (Request r)
    show ?thesis
    proof (cases "req_method r = ''POST''")
      case True
      with Cons.prems Request have "well_spaced 0 (ys @ q # zs)" by simp
      from Cons.IH [OF this Cons.prems(2)] Request show ?thesis by simp
    next
      case False
      with Cons.prems Request have "well_spaced t (ys @ q # zs)" by simp
      from Cons.IH [OF this Cons.prems(2)] Request show ?thesis by simp
    qed
  next
    case (Sleep k)
    with Cons.prems have "well_spaced (t + k) (ys @ q # zs)" by simp
    from Cons.IH [OF this Cons.prems(2)] Sleep show ?thesis by simp
  next
    case (Post u p k)
    with Cons.prems have "well_spaced t (ys @ q # zs)" by simp
    from Cons.IH [OF this Cons.prems(2)] Post show ?thesis by simp
  next
    case (Print l)
    with Cons.prems have "well_spaced t (ys @ q # zs)" by simp
    from Cons.IH [OF this Cons.prems(2)] Print show ?thesis by simp
  next
    case (Notify w sn)
    with Cons.prems have "well_spaced t (ys @ q # zs)" by simp
    from Cons.IH [OF this Cons.prems(2)] Notify show ?thesis by simp
  qed
qed

lemma spaced_between_queries:
  assumes "well_spaced t (xs @ [q1] @ ys @ [q2] @ zs)" and "is_query q1" and "is_query q2"
  shows "POLL_INTERVAL \<le> slept ys"
proof -
  from assms(1) have "well_spaced (gap t xs) (q1 # ys @ q2 # zs)"
    by (simp add: well_spaced_append)
  with assms(2) have "well_spaced 0 (ys @ q2 # zs)"
    by (cases q1) (simp_all split: if_splits)
  from spaced_until_query [OF this assms(3)] show ?thesis by simp
qed

lemma poll_cycle_spaced:
  assumes "poll_cycle E ap s = (r, s')" and "POLL_INTERVAL \<le> t"
  shows "well_spaced t (new_events s s') \<and> gap t (new_events s s') = POLL_INTERVAL"
proof -
  from poll_cycle_shape [OF assms(1)] obtain evs pr
    where e: "item_run (queried E ap s) (emit (Request (query_args E ap)) s) evs (snd (poll_body E ap s))"
      and tr: "trace s' = trace s @ [Request (query_args E ap)] @ evs @ pr @ [Sleep POLL_INTERVAL]"
      and pr: "pr = [] \<or> (\<exists>e. pr = [Print (Error e)])"
    by auto
  from tr have ne: "new_events s s' = [Request (query_args E ap)] @ evs @ pr @ [Sleep POLL_INTERVAL]"
    by (rule new_events_append)
  from e have "list_all (\<lambda>e. \<not> is_query e \<and> \<not> is_sleep e) evs"
    by (simp add: item_run_def)
  from quiet_spaced [OF this, of 0] have q: "well_spaced 0 evs" "gap 0 evs = 0" by simp_all
  have m: "req_method (query_args E ap) = ''POST''"
    by (simp add: query_args_def request_args_def)
  from pr q m assms(2) show ?thesis
    unfolding ne by (auto simp: well_spaced_append gap_append)
qed

lemma new_events_trans:
  "trace s1 = trace s @ evs1 \<Longrightarrow> trace s' = trace s1 @ evs2 \<Longrightarrow>
     new_events s s' = new_events s s1 @ new_events s1 s'"
  by (simp add: new_events_def)

lemma poll_loop_spaced:
  "poll_loop E ap n s = (r, s') \<Longrightarrow> POLL_INTERVAL \<le> t \<Longrightarrow>
     well_spaced t (new_events s s') \<and> POLL_INTERVAL \<le> gap t (new_events s s')"
proof (induction n arbitrary: s t)
  case 0
  then show ?case by (simp add: new_events_def)
next
  case (Suc n)
  obtain r1 s1 where c: "poll_cycle E ap s = (r1, s1)"
    by (cases "poll_cycle E ap s")
  from poll_cycle_shape [OF c] have "r1 = Inr ()" by simp
  with Suc.prems(1) c have l: "poll_loop E ap n s1 = (r, s')" by simp
  from poll_cycle_spaced [OF c Suc.prems(2)]
  have 1: "well_spaced t (new_events s s1)" "gap t (new_events s s1) = POLL_INTERVAL" by simp_all
  from Suc.IH [OF l, of POLL_INTERVAL]
  have 2: "well_spaced POLL_INTERVAL (new_events s1 s')"
      "POLL_INTERVAL \<le> gap POLL_INTERVAL (new_events s1 s')"
    by simp_all
  from poll_cycle_run [OF c] have t1: "trace s1 = trace s @ new_events s s1"
    by (simp add: run_def)
  from poll_loop_run [OF l] have t2: "trace s' = trace s1 @ new_events s1 s'"
    by (simp add: run_def)
  from new_events_trans [OF t1 t2] 1 2 show ?case
    by (simp add: well_spaced_append gap_append)
qed

text \<open>
  C10. Every pass of the loop ends with the sleep of \<open>POLL_INTERVAL\<close> seconds, also
  the pass in which the body of \<^verbatim>\<open>try\<close> raised: there the error line is printed and
  the sleep follows. So between any two queries of a run of the loop, the sleeps add
  up to at least \<open>POLL_INTERVAL\<close> seconds.
\<close>

theorem sleep_ends_every_cycle:
  "(\<exists>evs. trace (snd (poll_cycle E ap s)) = trace s @ evs @ [Sleep POLL_INTERVAL])
   \<and> (fst (poll_body E ap s) = Inl e \<longrightarrow>
        trace (snd (poll_cycle E ap s)) =
          trace (snd (poll_body E ap s)) @ [Print (Error e), Sleep POLL_INTERVAL])
   \<and> (new_events s (snd (poll_loop E ap n s)) = xs @ [q1] @ ys @ [q2] @ zs \<and>
        is_query q1 \<and> is_query q2 \<longrightarrow> POLL_INTERVAL \<le> slept ys)"
proof -
  have c: "poll_cycle E ap s = (fst (poll_cycle E ap s), snd (poll_cycle E ap s))" by simp
  from poll_cycle_shape [OF c] obtain evs pr
    where "trace (snd (poll_cycle E ap s)) =
      trace s @ ([Request (query_args E ap)] @ evs @ pr) @ [Sleep POLL_INTERVAL]"
    by auto
  then have first: "\<exists>evs. trace (snd (poll_cycle E ap s)) = trace s @ evs @ [Sleep POLL_INTERVAL]"
    by blast
  have second: "fst (poll_body E ap s) = Inl e \<longrightarrow>
      trace (snd (poll_cycle E ap s)) =
        trace (snd (poll_body E ap s)) @ [Print (Error e), Sleep POLL_INTERVAL]"
    by (cases "poll_body E ap s") (auto simp: poll_cycle_def)
  have l: "poll_loop E ap n s = (fst (poll_loop E ap n s), snd (poll_loop E ap n s))" by simp
  from poll_loop_spaced [OF l, of POLL_INTERVAL]
  have w: "well_spaced POLL_INTERVAL (new_events s (snd (poll_loop E ap n s)))" by simp
  have third: "new_events s (snd (poll_loop E ap n s)) = xs @ [q1] @ ys @ [q2] @ zs \<and>
      is_query q1 \<and> is_query q2 \<longrightarrow> POLL_INTERVAL \<le> slept ys"
  proof (intro impI, elim conjE)
    assume "new_events s (snd (poll_loop E ap n s)) = xs @ [q1] @ ys @ [q2] @ zs"
      and q: "is_query q1" "is_query q2"
    with w have "well_spaced POLL_INTERVAL (xs @ [q1] @ ys @ [q2] @ zs)" by simp
    from spaced_between_queries [OF this q] show "POLL_INTERVAL \<le> slept ys" .
  qed
  from first second third show ?thesis by (intro conjI)
qed

lemma failing_fetch_two_cycles:
  "new_events seen_101 (snd (poll_loop (tracker failing_fetch) ap 2 seen_101)) =
     [] @ [Request (query_args (tracker failing_fetch) ap)] @
     [Request (fetch_args (tracker failing_fetch) 102), Print (Error (HTTPError 500 ''error'')),
      Sleep POLL_INTERVAL] @
     [Request (query_args (tracker failing_fetch) ap)] @ [Sleep POLL_INTERVAL]"
  by (simp add: numeral_2_eq_2 poll_cycle_def poll_body_def failing_fetch_query failing_fetch_fetch
      process_item_def subscript_def new_events_def seen_101_def emit_def)

theorem sleep_ends_every_cycle_witness:
  "fst (poll_body (tracker failing_fetch) project_clause seen_101) = Inl (HTTPError 500 ''error'')
   \<and> trace (snd (poll_cycle (tracker failing_fetch) project_clause seen_101)) =
       trace (snd (poll_body (tracker failing_fetch) project_clause seen_101)) @
       [Print (Error (HTTPError 500 ''error'')), Sleep POLL_INTERVAL]
   \<and> new_events seen_101 (snd (poll_loop (tracker failing_fetch) project_clause 2 seen_101)) =
       [] @ [Request (query_args (tracker failing_fetch) project_clause)] @
       [Request (fetch_args (tracker failing_fetch) 102), Print (Error (HTTPError 500 ''error'')),
        Sleep POLL_INTERVAL] @
       [Request (query_args (tracker failing_fetch) project_clause)] @ [Sleep POLL_INTERVAL]
   \<and> POLL_INTERVAL \<le> slept [Request (fetch_args (tracker failing_fetch) 102),
        Print (Error (HTTPError 500 ''error'')), Sleep POLL_INTERVAL]"
proof -
  let ?F = "tracker failing_fetch"
  let ?q = "Request (query_args ?F project_clause)"
  let ?ys = "[Request (fetch_args ?F 102), Print (Error (HTTPError 500 ''error'')), Sleep POLL_INTERVAL]"
  note t = sleep_ends_every_cycle [where E = ?F and ap = project_clause and s = seen_101
      and e = "HTTPError 500 ''error''" and n = 2 and xs = "[]" and ?q1.0 = ?q and ys = ?ys
      and ?q2.0 = ?q and zs = "[Sleep POLL_INTERVAL]"]
  have b: "fst (poll_body ?F project_clause seen_101) = Inl (HTTPError 500 ''error'')"
    by (simp add: poll_body_def failing_fetch_query failing_fetch_fetch process_item_def
        subscript_def seen_101_def)
  note ne = failing_fetch_two_cycles [of project_clause]
  have q: "is_query ?q" by (rule is_query_args)
  note second = t [THEN conjunct2, THEN conjunct1, THEN mp, OF b]
  note third = t [THEN conjunct2, THEN conjunct2, THEN mp, OF conjI [OF ne conjI [OF q q]]]
  from b second ne third show ?thesis by (intro conjI)
qed

end
